theory Spec2Isabelle
  imports Main
begin

section \<open>JavaScript strings\<close>

text \<open>
  A JavaScript string is modelled as a \<^typ>\<open>string\<close>, one \<^typ>\<open>char\<close> per code unit;
  the texts handled are ASCII. The functions below are the \<open>String.prototype\<close>
  methods and the regular expressions the site scripts use.
\<close>

fun startsWith :: "string \<Rightarrow> string \<Rightarrow> bool" where
  "startsWith s [] = True"
| "startsWith [] (p # ps) = False"
| "startsWith (c # cs) (p # ps) = (c = p \<and> startsWith cs ps)"

definition endsWith :: "string \<Rightarrow> string \<Rightarrow> bool" where
  "endsWith s p = startsWith (rev s) (rev p)"

text \<open>\<open>s.includes(sub)\<close>: \<open>sub\<close> occurs in \<open>s\<close> at some position.\<close>

fun str_includes :: "string \<Rightarrow> string \<Rightarrow> bool" where
  "str_includes [] sub = startsWith [] sub"
| "str_includes (c # cs) sub = (startsWith (c # cs) sub \<or> str_includes cs sub)"

definition lower_char :: "char \<Rightarrow> char" where
  "lower_char c =
     (case map_of (zip ''ABCDEFGHIJKLMNOPQRSTUVWXYZ'' ''abcdefghijklmnopqrstuvwxyz'') c of
        Some l \<Rightarrow> l
      | None \<Rightarrow> c)"

definition toLowerCase :: "string \<Rightarrow> string" where
  "toLowerCase s = map lower_char s"

text \<open>\<open>s.split(d)\<close> for a one-character separator: never empty, \<open>''''\<close> gives \<open>['''']\<close>.\<close>

fun split_on :: "char \<Rightarrow> string \<Rightarrow> string list" where
  "split_on d [] = [[]]"
| "split_on d (c # cs) =
     (if c = d then [] # split_on d cs
      else (case split_on d cs of
              [] \<Rightarrow> [[c]]
            | w # ws \<Rightarrow> (c # w) # ws))"

text \<open>The character classes \<open>\s\<close>, \<open>\d\<close> and \<open>\w\<close>.\<close>

definition is_space :: "char \<Rightarrow> bool" where
  "is_space c = (c \<in> set [CHR '' '', CHR 0x09, CHR 0x0A, CHR 0x0B, CHR 0x0C, CHR 0x0D])"

definition is_digit :: "char \<Rightarrow> bool" where
  "is_digit c = (c \<in> set ''0123456789'')"

definition is_word :: "char \<Rightarrow> bool" where
  "is_word c =
     (c \<in> set ''abcdefghijklmnopqrstuvwxyzABCDEFGHIJKLMNOPQRSTUVWXYZ0123456789_'')"

definition trim :: "string \<Rightarrow> string" where
  "trim s = rev (dropWhile is_space (rev (dropWhile is_space s)))"

text \<open>
  \<open>s.split(/\s+/)\<close>: cut at each maximal run of white space. A leading or a trailing
  run leaves an empty string at that end.
\<close>

fun split_ws :: "string \<Rightarrow> string list" where
  "split_ws [] = [[]]"
| "split_ws (c # cs) =
     (if is_space c then
        (case cs of
           [] \<Rightarrow> [] # split_ws cs
         | d # ds \<Rightarrow> (if is_space d then split_ws cs else [] # split_ws cs))
      else (case split_ws cs of
              [] \<Rightarrow> [[c]]
            | w # ws \<Rightarrow> (c # w) # ws))"

text \<open>\<open>s.padStart(2, '0')\<close>.\<close>

definition padStart2 :: "string \<Rightarrow> string" where
  "padStart2 s = replicate (2 - length s) (CHR ''0'') @ s"

text \<open>\<open>s.replace(c, '')\<close> for a one-character pattern: the first occurrence goes.\<close>

fun remove_first :: "char \<Rightarrow> string \<Rightarrow> string" where
  "remove_first d [] = []"
| "remove_first d (c # cs) = (if c = d then cs else c # remove_first d cs)"

text \<open>The decimal numeral of a non-negative integer, and of an integer.\<close>

definition digit_char :: "nat \<Rightarrow> char" where
  "digit_char d = ''0123456789'' ! d"

fun show_nat :: "nat \<Rightarrow> string" where
  "show_nat n = (if n < 10 then [digit_char n] else show_nat (n div 10) @ [digit_char (n mod 10)])"

declare show_nat.simps [simp del]

definition show_int :: "int \<Rightarrow> string" where
  "show_int i = (if i < 0 then ''-'' @ show_nat (nat (- i)) else show_nat (nat i))"

text \<open>A template literal prints an absent value as \<open>undefined\<close>.\<close>

definition interpolate :: "string option \<Rightarrow> string" where
  "interpolate v = (case v of None \<Rightarrow> ''undefined'' | Some s \<Rightarrow> s)"

section \<open>Responses of \<open>fetch\<close>\<close>

text \<open>
  A \<open>fetch\<close> either rejects (a network error) or resolves to a response with its
  \<open>ok\<close> flag, its status code and its body, already decoded to what the caller reads.
\<close>

datatype 'a fetched = NetworkError | Response bool nat 'a

section \<open>Repository statistics (\<open>js/github-stats.js\<close>)\<close>

record loader =
  repos :: "string list"
  totalStars :: nat
  totalForks :: nat

definition new_loader :: loader where
  "new_loader = \<lparr>repos = [], totalStars = 0, totalForks = 0\<rparr>"

text \<open>An anchor of the parsed page is its \<open>href\<close> attribute, absent or a string.\<close>

type_synonym anchor = "string option"

text \<open>\<open>doc.querySelectorAll('a[href*="github.com"]')\<close>, in document order.\<close>

definition querySelectorAll_github :: "anchor list \<Rightarrow> anchor list" where
  "querySelectorAll_github doc =
     filter (\<lambda>a. case a of None \<Rightarrow> False | Some h \<Rightarrow> str_includes h ''github.com'') doc"

definition marker :: string where
  "marker = ''github.com/''"

definition segment :: "string \<Rightarrow> string" where
  "segment s = takeWhile (\<lambda>c. c \<noteq> CHR ''/'') s"

text \<open>
  The regular expression \<open>github\.com\/([^\/]+\/[^\/]+)\<close> tried at the start of \<open>s\<close>:
  the marker, a greedy non-empty run without a slash, a slash, and a second such run.
  The value is capture group 1.
\<close>

definition match_here :: "string \<Rightarrow> string option" where
  "match_here s =
     (if startsWith s marker then
        (let t = drop (length marker) s;
             s1 = segment t;
             u = drop (length s1) t
         in if s1 = [] then None
            else (case u of
                    [] \<Rightarrow> None
                  | c # v \<Rightarrow>
                      (let s2 = segment v
                       in if s2 = [] then None else Some (s1 @ ''/'' @ s2))))
      else None)"

text \<open>\<open>href.match(re)\<close> without the global flag: the leftmost position that matches.\<close>

fun match_github :: "string \<Rightarrow> string option" where
  "match_github [] = match_here []"
| "match_github (c # cs) =
     (case match_here (c # cs) of
        Some m \<Rightarrow> Some m
      | None \<Rightarrow> match_github cs)"

text \<open>\<open>m.replace(/\/$/, '')\<close>.\<close>

definition strip_trailing_slash :: "string \<Rightarrow> string" where
  "strip_trailing_slash s = (if s \<noteq> [] \<and> last s = CHR ''/'' then butlast s else s)"

text \<open>What one link contributes: the identifier added to the set, if any.\<close>

definition repo_of_href :: "string \<Rightarrow> string option" where
  "repo_of_href href =
     (case match_github href of
        None \<Rightarrow> None
      | Some m \<Rightarrow>
          (let repoPath = strip_trailing_slash m
           in if repoPath \<noteq> [] \<and> \<not> endsWith repoPath ''.com''
                 \<and> length (split_on (CHR ''/'') repoPath) = 2
              then Some repoPath else None))"

text \<open>\<open>Set.prototype.add\<close> on a set kept in insertion order.\<close>

definition set_add :: "'a list \<Rightarrow> 'a \<Rightarrow> 'a list" where
  "set_add s x = (if x \<in> set s then s else s @ [x])"

definition visit_link :: "string list \<Rightarrow> anchor \<Rightarrow> string list" where
  "visit_link rs link =
     (case link of
        None \<Rightarrow> rs
      | Some href \<Rightarrow>
          (if href = [] then rs
           else (case repo_of_href href of None \<Rightarrow> rs | Some r \<Rightarrow> set_add rs r)))"

text \<open>
  \<open>extractGitHubRepos\<close>: the argument is the outcome of \<open>fetch('projects.html')\<close> with
  the anchors of the parsed document. A failure is caught: the result is \<open>[]\<close> and the
  loader keeps its list.
\<close>

definition extractGitHubRepos :: "anchor list fetched \<Rightarrow> loader \<Rightarrow> string list \<times> loader" where
  "extractGitHubRepos resp l =
     (case resp of
        NetworkError \<Rightarrow> ([], l)
      | Response ok st doc \<Rightarrow>
          (if \<not> ok then ([], l)
           else (let rs = foldl visit_link [] (querySelectorAll_github doc)
                 in (rs, l\<lparr>repos := rs\<rparr>))))"

record repo_data =
  full_name :: string
  stargazers_count :: "nat option"
  forks_count :: "nat option"

record repo_stat =
  name :: string
  stars :: nat
  forks :: nat

text \<open>\<open>x || 0\<close> on an optional count.\<close>

definition or_zero :: "nat option \<Rightarrow> nat" where
  "or_zero x = (case x of None \<Rightarrow> 0 | Some n \<Rightarrow> n)"

text \<open>
  \<open>fetchRepoStats\<close>: the body is the decoded JSON, \<open>None\<close> when decoding throws.
  Every failure ends in \<open>null\<close>.
\<close>

definition fetchRepoStats :: "repo_data option fetched \<Rightarrow> repo_stat option" where
  "fetchRepoStats resp =
     (case resp of
        NetworkError \<Rightarrow> None
      | Response ok st b \<Rightarrow>
          (if \<not> ok then (if st = 404 then None else None)
           else (case b of
                   None \<Rightarrow> None
                 | Some d \<Rightarrow>
                     Some \<lparr>name = full_name d,
                           stars = or_zero (stargazers_count d),
                           forks = or_zero (forks_count d)\<rparr>)))"

record totals =
  sum_stars :: nat
  sum_forks :: nat

datatype request = GetPage string | GetRepo string

definition add_stat :: "nat \<times> nat \<Rightarrow> repo_stat option \<Rightarrow> nat \<times> nat" where
  "add_stat acc stat =
     (case stat of
        None \<Rightarrow> acc
      | Some s \<Rightarrow> (fst acc + stars s, snd acc + forks s))"

text \<open>
  \<open>fetchAllStats\<close>: \<open>page\<close> is what fetching \<open>projects.html\<close> gives, \<open>api\<close> what the
  lookup of each identifier gives. The third component lists the requests issued.
\<close>

definition fetchAllStats ::
  "anchor list fetched \<Rightarrow> (string \<Rightarrow> repo_data option fetched) \<Rightarrow> loader
     \<Rightarrow> totals \<times> loader \<times> request list" where
  "fetchAllStats page api l =
     (let l1 = (if length (repos l) = 0 then snd (extractGitHubRepos page l) else l);
          t1 = (if length (repos l) = 0 then [GetPage ''projects.html''] else [])
      in if length (repos l1) = 0
         then (\<lparr>sum_stars = 0, sum_forks = 0\<rparr>, l1, t1)
         else (let results = map (\<lambda>repo. fetchRepoStats (api repo)) (repos l1);
                   tot = foldl add_stat (0, 0) results
               in (\<lparr>sum_stars = fst tot, sum_forks = snd tot\<rparr>,
                   l1\<lparr>totalStars := fst tot, totalForks := snd tot\<rparr>,
                   t1 @ map GetRepo (repos l1))))"

definition is_lookup :: "request \<Rightarrow> bool" where
  "is_lookup r = (case r of GetPage u \<Rightarrow> False | GetRepo p \<Rightarrow> True)"

text \<open>The position of the first occurrence of \<open>x\<close> in \<open>xs\<close>.\<close>

definition first_index :: "'a list \<Rightarrow> 'a \<Rightarrow> nat" where
  "first_index xs x = length (takeWhile (\<lambda>y. y \<noteq> x) xs)"

text \<open>
  The identifier an anchor yields, and the identifiers of a document in document order,
  repetitions included.
\<close>

definition anchor_yield :: "anchor \<Rightarrow> string option" where
  "anchor_yield a =
     (case a of
        None \<Rightarrow> None
      | Some h \<Rightarrow> (if str_includes h ''github.com'' then repo_of_href h else None))"

definition yielded :: "anchor list \<Rightarrow> string list" where
  "yielded doc = List.map_filter anchor_yield doc"

text \<open>
  The reading of the specification: the text after the first occurrence of the host,
  cut at slashes, has exactly two non-empty segments.
\<close>

fun after_host :: "string \<Rightarrow> string option" where
  "after_host [] = None"
| "after_host (c # cs) =
     (if startsWith (c # cs) ''github.com'' then Some (drop 10 (c # cs)) else after_host cs)"

definition spec_two_segments :: "string \<Rightarrow> bool" where
  "spec_two_segments h =
     (case after_host h of
        None \<Rightarrow> False
      | Some p \<Rightarrow> length (filter (\<lambda>s. s \<noteq> []) (split_on (CHR ''/'') p)) = 2)"

subsection \<open>Formatting a total\<close>

text \<open>
  \<open>num / 1000\<close> is a division of doubles. For integers \<open>0 < b \<le> a < 2^53\<close> the quotient
  lies in a binade \<open>[2^(L-1), 2^L)\<close> with \<open>L\<close> the bit length of \<open>a div b\<close>, where doubles
  are the multiples of \<open>2^(L-53)\<close>; the result is the nearest of them, ties to the even
  one. It is kept as a numerator and the exponent of its denominator: \<open>(m, sc)\<close> stands
  for \<open>m / 2^sc\<close>.
\<close>

fun bit_length :: "nat \<Rightarrow> nat" where
  "bit_length n = (if n = 0 then 0 else Suc (bit_length (n div 2)))"

declare bit_length.simps [simp del]

definition round_half_even :: "nat \<Rightarrow> nat \<Rightarrow> nat" where
  "round_half_even n d =
     (let q = n div d; r = n mod d
      in if 2 * r < d then q
         else if d < 2 * r then q + 1
         else if even q then q else q + 1)"

definition double_div :: "nat \<Rightarrow> nat \<Rightarrow> nat \<times> nat" where
  "double_div a b =
     (let sc = 53 - bit_length (a div b)
      in (round_half_even (a * 2 ^ sc) b, sc))"

text \<open>
  \<open>x.toFixed(1)\<close>: the integer \<open>n\<close> with \<open>n / 10\<close> nearest to \<open>x\<close>, the larger one of
  two, printed with its last digit after the point.
\<close>

definition toFixed1 :: "nat \<times> nat \<Rightarrow> string" where
  "toFixed1 x =
     (case x of
        (m, sc) \<Rightarrow>
          (let n = (20 * m + 2 ^ sc) div (2 * 2 ^ sc)
           in show_nat (n div 10) @ ''.'' @ show_nat (n mod 10)))"

text \<open>\<open>formatNumber\<close>, for a total that is a non-negative integer below \<open>2^53\<close>.\<close>

definition formatNumber :: "nat \<Rightarrow> string" where
  "formatNumber num =
     (if num \<ge> 1000000 then toFixed1 (double_div num 1000000) @ ''M''
      else if num \<ge> 1000 then toFixed1 (double_div num 1000) @ ''K''
      else show_nat num)"

section \<open>Blog posts (\<open>js/includes.js\<close>)\<close>

definition determineCategory :: "string \<Rightarrow> string \<Rightarrow> string" where
  "determineCategory ttl body =
     (let lowerTitle = toLowerCase ttl;
          lowerBody = toLowerCase body
      in if str_includes lowerTitle ''tutorial'' \<or> str_includes lowerTitle ''guide''
            \<or> str_includes lowerTitle ''how to''
         then ''tutorials''
         else if str_includes lowerTitle ''optimization'' \<or> str_includes lowerTitle ''optimizing''
            \<or> str_includes lowerTitle ''performance''
         then ''optimization''
         else if str_includes lowerTitle ''deployment'' \<or> str_includes lowerTitle ''deploy''
            \<or> str_includes lowerTitle ''serving'' \<or> str_includes lowerTitle ''mobile''
            \<or> str_includes lowerTitle ''android'' \<or> str_includes lowerTitle ''gpu''
         then ''deployment''
         else if str_includes lowerTitle ''research'' \<or> str_includes lowerTitle ''paper''
            \<or> str_includes lowerTitle ''study''
         then ''research''
         else ''deployment'')"

definition title_keywords :: "string list" where
  "title_keywords =
     [''tutorial'', ''guide'', ''how to'', ''optimization'', ''optimizing'', ''performance'',
      ''deployment'', ''deploy'', ''serving'', ''mobile'', ''android'', ''gpu'',
      ''research'', ''paper'', ''study'']"

subsection \<open>Dates\<close>

text \<open>
  A valid \<open>Date\<close>, as far as the scripts read it: the local year, the month counted
  from 0, the day of the month, and the time value in milliseconds. \<open>new Date(s)\<close> is
  the host's parser and a parameter \<open>D\<close> of what follows; \<open>None\<close> is \<open>Invalid Date\<close>.
\<close>

record js_date =
  getFullYear :: int
  getMonth :: nat
  getDate :: nat
  getTime :: int

type_synonym date_parser = "string \<Rightarrow> js_date option"

definition months :: "string \<Rightarrow> string option" where
  "months =
     map_of [(''jan'', ''01''), (''feb'', ''02''), (''mar'', ''03''), (''apr'', ''04''),
             (''may'', ''05''), (''jun'', ''06''), (''jul'', ''07''), (''aug'', ''08''),
             (''sep'', ''09''), (''oct'', ''10''), (''nov'', ''11''), (''dec'', ''12'')]"

text \<open>
  \<open>parseDateString\<close>. The argument is \<open>null\<close> or a string; the result is \<open>null\<close> or
  the string the function returns.
\<close>

definition parseDateString :: "date_parser \<Rightarrow> string option \<Rightarrow> string option" where
  "parseDateString D dateStr =
     (case dateStr of
        None \<Rightarrow> None
      | Some s \<Rightarrow>
          (if s = [] then None
           else (case D s of
                   None \<Rightarrow>
                     (let parts = split_ws (remove_first (CHR '','') (toLowerCase s))
                      in if length parts \<ge> 3 then
                           (let month = months (take 3 (parts ! 0));
                                day = padStart2 (parts ! 1);
                                year = parts ! 2
                            in Some (year @ ''-'' @ interpolate month @ ''-'' @ day))
                         else None)
                 | Some d \<Rightarrow>
                     (let year = getFullYear d;
                          month = padStart2 (show_nat (getMonth d + 1));
                          day = padStart2 (show_nat (getDate d))
                      in Some (show_int year @ ''-'' @ month @ ''-'' @ day)))))"

text \<open>A regular expression without anchors is tried at every position.\<close>

fun anywhere :: "(string \<Rightarrow> bool) \<Rightarrow> string \<Rightarrow> bool" where
  "anywhere P [] = P []"
| "anywhere P (c # cs) = (P (c # cs) \<or> anywhere P cs)"

text \<open>\<open>\w+\s+\d+,\s+\d{4}\<close> at the start of \<open>s\<close>; each run is followed by a character outside
  its class, so the greedy runs are the only way to match.\<close>

definition date_here :: "string \<Rightarrow> bool" where
  "date_here s =
     (let w = takeWhile is_word s; r1 = dropWhile is_word s;
          sp = takeWhile is_space r1; r2 = dropWhile is_space r1;
          ds = takeWhile is_digit r2; r3 = dropWhile is_digit r2
      in w \<noteq> [] \<and> sp \<noteq> [] \<and> ds \<noteq> [] \<and>
         (case r3 of
            [] \<Rightarrow> False
          | c # r4 \<Rightarrow>
              c = CHR '','' \<and> takeWhile is_space r4 \<noteq> [] \<and>
              4 \<le> length (takeWhile is_digit (dropWhile is_space r4))))"

definition looks_like_date :: "string \<Rightarrow> bool" where
  "looks_like_date s = anywhere date_here s"

text \<open>\<open>\d{4}\<close> and \<open>\d{4}\/\d{2}\/\d{2}\<close>.\<close>

definition year_here :: "string \<Rightarrow> bool" where
  "year_here s = (4 \<le> length s \<and> list_all is_digit (take 4 s))"

definition has_year :: "string \<Rightarrow> bool" where
  "has_year s = anywhere year_here s"

definition ymd_here :: "string \<Rightarrow> bool" where
  "ymd_here s =
     (10 \<le> length s \<and> list_all is_digit (take 4 s) \<and> s ! 4 = CHR ''/''
      \<and> list_all is_digit (take 2 (drop 5 s)) \<and> s ! 7 = CHR ''/''
      \<and> list_all is_digit (take 2 (drop 8 s)))"

definition has_ymd :: "string \<Rightarrow> bool" where
  "has_ymd s = anywhere ymd_here s"

definition month_names :: "string \<Rightarrow> string option" where
  "month_names =
     map_of [(''Jan'', ''January''), (''Feb'', ''February''), (''Mar'', ''March''),
             (''Apr'', ''April''), (''May'', ''May''), (''Jun'', ''June''),
             (''Jul'', ''July''), (''Aug'', ''August''), (''Sep'', ''September''),
             (''Oct'', ''October''), (''Nov'', ''November''), (''Dec'', ''December'')]"

text \<open>
  \<open>formatDate\<close>; \<open>long\<close> is \<open>toLocaleDateString('en-US', \<dots>)\<close> with a long month. The
  table is read by its own keys only.
\<close>

definition formatDate :: "date_parser \<Rightarrow> (js_date \<Rightarrow> string) \<Rightarrow> string option \<Rightarrow> string" where
  "formatDate D long dateString =
     (case dateString of
        None \<Rightarrow> []
      | Some s \<Rightarrow>
          (if s = [] then []
           else if looks_like_date s then
             (let parts = split_on (CHR '' '') s
              in if length parts \<ge> 3 then
                   (case month_names (parts ! 0) of
                      Some m \<Rightarrow> m @ '' '' @ parts ! 1 @ '' '' @ parts ! 2
                    | None \<Rightarrow> s)
                 else s)
           else (case D s of Some d \<Rightarrow> long d | None \<Rightarrow> s)))"

subsection \<open>Scraping the index page\<close>

text \<open>
  A post. The fields \<open>excerpt\<close>, \<open>category\<close> and \<open>readTime\<close> are absent until the post
  is enriched.
\<close>

record post =
  title :: string
  url :: string
  date :: "string option"
  formattedDate :: string
  rawDate :: "string option"
  excerpt :: "string option"
  category :: "string option"
  readTime :: "string option"

text \<open>
  A list item of the index page: its first link, if any, with the link's text and
  \<open>href\<close> attribute, and the texts of its \<open>span\<close> descendants in document order.
\<close>

record list_item =
  link :: "(string \<times> string option) option"
  spans :: "string list"

text \<open>The loop over the spans runs from the last one to the first.\<close>

definition find_date_span :: "string list \<Rightarrow> string option" where
  "find_date_span sp = List.find (\<lambda>t. looks_like_date t \<or> has_year t) (map trim (rev sp))"

text \<open>What one list item pushes, if anything. A regular expression tests \<open>null\<close> as the
  text \<open>null\<close>.\<close>

definition scrape_item :: "date_parser \<Rightarrow> (js_date \<Rightarrow> string) \<Rightarrow> list_item \<Rightarrow> post option" where
  "scrape_item D long li =
     (case link li of
        None \<Rightarrow> None
      | Some (txt, href) \<Rightarrow>
          (let ttl = trim txt
           in if ttl = [] \<or> toLowerCase ttl = ''home'' \<or> href = Some ''/''
                 \<or> href = Some ''/index.html''
              then None
              else if \<not> has_ymd (case href of None \<Rightarrow> ''null'' | Some h \<Rightarrow> h) then None
              else (case href of
                      None \<Rightarrow> None
                    | Some h \<Rightarrow>
                        (let u = (if startsWith h ''http'' then h else ''https://blog.mlc.ai'' @ h);
                             dateStr = find_date_span (spans li)
                         in if u = [] then None
                            else (let d = parseDateString D dateStr
                                  in Some \<lparr>title = ttl, url = u, date = d,
                                       formattedDate =
                                         formatDate D long
                                           (if d = None \<or> d = Some [] then dateStr else d),
                                       rawDate = dateStr, excerpt = None, category = None,
                                       readTime = None\<rparr>)))))"

text \<open>
  The comparator of the sort; \<open>None\<close> is \<open>NaN\<close>, the difference of two dates of which one
  is invalid.
\<close>

definition no_date :: "post \<Rightarrow> bool" where
  "no_date p = (date p = None \<or> date p = Some [])"

definition compare_posts :: "date_parser \<Rightarrow> post \<Rightarrow> post \<Rightarrow> int option" where
  "compare_posts D a b =
     (if no_date a \<and> no_date b then Some 0
      else if no_date a then Some 1
      else if no_date b then Some (- 1)
      else (case (date a, date b) of
              (Some da, Some db) \<Rightarrow>
                (case (D db, D da) of
                   (Some tb, Some ta) \<Rightarrow> Some (getTime tb - getTime ta)
                 | _ \<Rightarrow> None)
            | _ \<Rightarrow> None))"

text \<open>
  \<open>Array.prototype.sort\<close> is stable and reads \<open>NaN\<close> from the comparator as \<open>+0\<close>. With
  a consistent comparator every stable sort gives the same array; it is computed here
  by insertion, an element going before the first later element it does not exceed.
\<close>

definition sort_compare :: "('a \<Rightarrow> 'a \<Rightarrow> int option) \<Rightarrow> 'a \<Rightarrow> 'a \<Rightarrow> int" where
  "sort_compare cmp x y = (case cmp x y of None \<Rightarrow> 0 | Some v \<Rightarrow> v)"

fun insert_sorted :: "('a \<Rightarrow> 'a \<Rightarrow> int option) \<Rightarrow> 'a \<Rightarrow> 'a list \<Rightarrow> 'a list" where
  "insert_sorted cmp x [] = [x]"
| "insert_sorted cmp x (y # ys) =
     (if sort_compare cmp x y \<le> 0 then x # y # ys else y # insert_sorted cmp x ys)"

definition array_sort :: "('a \<Rightarrow> 'a \<Rightarrow> int option) \<Rightarrow> 'a list \<Rightarrow> 'a list" where
  "array_sort cmp xs = foldr (insert_sorted cmp) xs []"

text \<open>
  The time value of a post's date, absent for a post without a date and for a date the
  host does not read; the order the sort aims at, later dates first and no date last;
  and the posts whose date, if they have one, the host reads.
\<close>

definition post_time :: "date_parser \<Rightarrow> post \<Rightarrow> int option" where
  "post_time D p =
     (case date p of
        None \<Rightarrow> None
      | Some d \<Rightarrow> (if d = [] then None else map_option getTime (D d)))"

definition newer_first :: "int option \<Rightarrow> int option \<Rightarrow> bool" where
  "newer_first ta tb =
     (case tb of
        None \<Rightarrow> True
      | Some y \<Rightarrow> (case ta of None \<Rightarrow> False | Some x \<Rightarrow> y \<le> x))"

definition readable :: "date_parser \<Rightarrow> post \<Rightarrow> bool" where
  "readable D p = (no_date p \<or> post_time D p \<noteq> None)"

datatype error = FetchFailed | TypeError

text \<open>
  \<open>fetchPostsFromBlog\<close>: the argument is the outcome of fetching the index page, with
  the list items of the parsed document. A failed fetch is thrown on.
\<close>

definition fetchPostsFromBlog ::
  "date_parser \<Rightarrow> (js_date \<Rightarrow> string) \<Rightarrow> list_item list fetched \<Rightarrow> error + post list" where
  "fetchPostsFromBlog D long resp =
     (case resp of
        NetworkError \<Rightarrow> Inl FetchFailed
      | Response ok st items \<Rightarrow>
          (if \<not> ok then Inl FetchFailed
           else Inr (array_sort (compare_posts D) (List.map_filter (scrape_item D long) items))))"

subsection \<open>Enriching a post\<close>

text \<open>
  The page of a post: the \<open>content\<close> attribute of its description \<open>meta\<close> element
  (outer \<open>None\<close>: no such element; inner \<open>None\<close>: no such attribute) and the text of the
  first paragraph the selector finds.
\<close>

record post_doc =
  metaDescription :: "string option option"
  firstParagraph :: "string option"

definition default_excerpt :: string where
  "default_excerpt = ''Read the full article to learn more.''"

text \<open>The value of the \<open>catch\<close> block.\<close>

definition enrich_default :: "post \<Rightarrow> post" where
  "enrich_default p =
     p\<lparr>excerpt := Some default_excerpt,
       category := Some (determineCategory (title p) []),
       readTime := Some ''5 min read''\<rparr>"

definition enrichPostData :: "post_doc fetched \<Rightarrow> post \<Rightarrow> post" where
  "enrichPostData resp p =
     (case resp of
        NetworkError \<Rightarrow> enrich_default p
      | Response ok st doc \<Rightarrow>
          (if \<not> ok then p
           else (let e0 = (case metaDescription doc of None \<Rightarrow> Some [] | Some c \<Rightarrow> c);
                     e1 = (if e0 = None \<or> e0 = Some []
                           then (case firstParagraph doc of
                                   None \<Rightarrow> e0
                                 | Some t \<Rightarrow> Some (trim t))
                           else e0)
                 in case e1 of
                      None \<Rightarrow> enrich_default p
                    | Some e \<Rightarrow>
                        (let e2 = (if length e > 200 then take 200 e @ ''...'' else e);
                             cat = determineCategory (title p) e2;
                             wordCount = length (split_ws e2);
                             rt = show_nat (max 3 ((wordCount + 199) div 200)) @ '' min read''
                         in p\<lparr>excerpt := Some (if e2 = [] then default_excerpt else e2),
                              category := Some cat,
                              readTime := Some rt\<rparr>))))"

subsection \<open>Fetching all posts\<close>

record blog_loader =
  posts :: "post list"
  categories :: "string option list"
  currentCategory :: "string option"

definition new_blog_loader :: blog_loader where
  "new_blog_loader = \<lparr>posts = [], categories = [], currentCategory = Some ''all''\<rparr>"

text \<open>
  What the loader does to the outside, in order: a request issued, an \<open>await\<close> of the
  requests issued so far, a pause of so many milliseconds.
\<close>

datatype event = Fetch string | Await | Delay nat

definition batchSize :: nat where
  "batchSize = 5"

text \<open>
  The \<open>for\<close> loop of \<open>fetchAllPosts\<close>. Mapping \<open>enrichPostData\<close> over the batch issues
  every request of the batch before \<open>Promise.all\<close> is awaited; \<open>pages\<close> gives the
  outcome of each request by address.
\<close>

function enrich_batches ::
  "(string \<Rightarrow> post_doc fetched) \<Rightarrow> post list \<Rightarrow> nat \<Rightarrow> post list \<Rightarrow> event list
     \<Rightarrow> post list \<times> event list" where
  "enrich_batches pages ps i enrichedPosts tr =
     (if i < length ps then
        (let batch = take batchSize (drop i ps);
             enrichedBatch = map (\<lambda>p. enrichPostData (pages (url p)) p) batch;
             tr1 = tr @ map (\<lambda>p. Fetch (url p)) batch @ [Await];
             tr2 = (if i + batchSize < length ps then tr1 @ [Delay 100] else tr1)
         in enrich_batches pages ps (i + batchSize) (enrichedPosts @ enrichedBatch) tr2)
      else (enrichedPosts, tr))"
  by pat_completeness auto
termination
  by (relation "measure (\<lambda>(pages, ps, i, acc, tr). length ps - i)") (auto simp: batchSize_def)

declare enrich_batches.simps [simp del]

definition fetchAllPosts ::
  "date_parser \<Rightarrow> (js_date \<Rightarrow> string) \<Rightarrow> list_item list fetched
     \<Rightarrow> (string \<Rightarrow> post_doc fetched) \<Rightarrow> blog_loader
     \<Rightarrow> post list \<times> blog_loader \<times> event list" where
  "fetchAllPosts D long index pages bl =
     (case fetchPostsFromBlog D long index of
        Inl e \<Rightarrow> ([], bl, [Fetch ''https://blog.mlc.ai/'', Await])
      | Inr ps \<Rightarrow>
          (if length ps = 0 then ([], bl, [Fetch ''https://blog.mlc.ai/'', Await])
           else (case enrich_batches pages ps 0 [] [] of
                   (enriched, tr) \<Rightarrow>
                     (enriched,
                      bl\<lparr>posts := enriched,
                         categories := foldl set_add (categories bl) (map category enriched)\<rparr>,
                      [Fetch ''https://blog.mlc.ai/'', Await] @ tr))))"

text \<open>
  The schedule the specification describes, to compare the loop with: the posts cut
  into consecutive batches of a fixed size, the requests of a batch issued together and
  awaited, and a pause of 100 ms between two batches.
\<close>

function chunks :: "nat \<Rightarrow> 'a list \<Rightarrow> 'a list list" where
  "chunks k xs = (if k = 0 \<or> xs = [] then [] else take k xs # chunks k (drop k xs))"
  by pat_completeness auto
termination
  by (relation "measure (\<lambda>(k, xs). length xs)") auto

declare chunks.simps [simp del]

fun schedule :: "post list list \<Rightarrow> event list" where
  "schedule [] = []"
| "schedule [b] = map (\<lambda>p. Fetch (url p)) b @ [Await]"
| "schedule (b # c # bs) =
     map (\<lambda>p. Fetch (url p)) b @ [Await] @ [Delay 100] @ schedule (c # bs)"

subsection \<open>Rendering the blog page\<close>

text \<open>
  A card of the grid, by the values its template interpolates. \<open>monthYear\<close> is
  \<open>new Date(d).toLocaleDateString('en-US', \<dots>)\<close> with year and long month, a parameter.
\<close>

record card =
  card_category :: string
  card_icon :: string
  card_label :: string
  card_date :: string
  card_title :: string
  card_excerpt :: string
  card_readTime :: string
  card_url :: string

definition getCategoryIcon :: "string option \<Rightarrow> string" where
  "getCategoryIcon c =
     (case c of
        None \<Rightarrow> ''fa-file-alt''
      | Some k \<Rightarrow>
          (case map_of [(''tutorials'', ''fa-book''), (''optimization'', ''fa-tachometer-alt''),
                        (''deployment'', ''fa-server''), (''research'', ''fa-brain'')] k of
             None \<Rightarrow> ''fa-file-alt''
           | Some i \<Rightarrow> i))"

definition upper_char :: "char \<Rightarrow> char" where
  "upper_char c =
     (case map_of (zip ''abcdefghijklmnopqrstuvwxyz'' ''ABCDEFGHIJKLMNOPQRSTUVWXYZ'') c of
        Some u \<Rightarrow> u
      | None \<Rightarrow> c)"

text \<open>\<open>s.charAt(0).toUpperCase() + s.slice(1)\<close>.\<close>

definition capitalize :: "string \<Rightarrow> string" where
  "capitalize s = (case s of [] \<Rightarrow> [] | c # cs \<Rightarrow> upper_char c # cs)"

text \<open>\<open>renderPostCard\<close>; reading \<open>charAt\<close> of an absent category throws.\<close>

definition renderPostCard :: "(string \<Rightarrow> string) \<Rightarrow> post \<Rightarrow> error + card" where
  "renderPostCard monthYear p =
     (let ic = getCategoryIcon (category p);
          my = (if no_date p then []
                else (case date p of None \<Rightarrow> [] | Some d \<Rightarrow> monthYear d))
      in case category p of
           None \<Rightarrow> Inl TypeError
         | Some c \<Rightarrow>
             Inr \<lparr>card_category = c, card_icon = ic, card_label = capitalize c,
                  card_date = my, card_title = title p,
                  card_excerpt = interpolate (excerpt p),
                  card_readTime = interpolate (readTime p), card_url = url p\<rparr>)"

text \<open>All cards, or the first error thrown while mapping.\<close>

fun render_cards :: "(string \<Rightarrow> string) \<Rightarrow> post list \<Rightarrow> error + card list" where
  "render_cards monthYear [] = Inr []"
| "render_cards monthYear (p # ps) =
     (case renderPostCard monthYear p of
        Inl e \<Rightarrow> Inl e
      | Inr c \<Rightarrow>
          (case render_cards monthYear ps of
             Inl e \<Rightarrow> Inl e
           | Inr cs \<Rightarrow> Inr (c # cs)))"

text \<open>
  The two blocks of the blog page the loader writes, each absent when the page has no
  such element: the featured block, filled from one post, and the grid.
\<close>

datatype featured_html = FeaturedPlaceholder | FeaturedPost post

datatype grid_html = GridLoading | GridError string | NoPostsFound | Cards "card list"

record blog_page =
  featuredSection :: "featured_html option"
  postsGrid :: "grid_html option"

text \<open>\<open>renderFeaturedArticle\<close>, without the bar chart beside it.\<close>

definition renderFeaturedArticle :: "post option \<Rightarrow> blog_page \<Rightarrow> blog_page" where
  "renderFeaturedArticle p pg =
     (case (featuredSection pg, p) of
        (Some f, Some q) \<Rightarrow> pg\<lparr>featuredSection := Some (FeaturedPost q)\<rparr>
      | _ \<Rightarrow> pg)"

text \<open>The posts of the selected category, \<open>all\<close> selecting every post.\<close>

definition filteredPosts :: "blog_loader \<Rightarrow> post list" where
  "filteredPosts bl =
     (if currentCategory bl = Some ''all'' then posts bl
      else filter (\<lambda>p. category p = currentCategory bl) (posts bl))"

definition renderPosts :: "(string \<Rightarrow> string) \<Rightarrow> blog_loader \<Rightarrow> blog_page \<Rightarrow> error + blog_page" where
  "renderPosts monthYear bl pg =
     (case postsGrid pg of
        None \<Rightarrow> Inr pg
      | Some g \<Rightarrow>
          (let postsToRender = drop 1 (filteredPosts bl)
           in if length postsToRender = 0 then Inr (pg\<lparr>postsGrid := Some NoPostsFound\<rparr>)
              else (case render_cards monthYear postsToRender of
                      Inl e \<Rightarrow> Inl e
                    | Inr cs \<Rightarrow> Inr (pg\<lparr>postsGrid := Some (Cards cs)\<rparr>))))"

text \<open>
  The click handler of a category button: \<open>c\<close> is the button's \<open>data-category\<close>,
  absent when the button has none.
\<close>

definition click_category ::
  "(string \<Rightarrow> string) \<Rightarrow> string option \<Rightarrow> blog_loader \<Rightarrow> blog_page
     \<Rightarrow> blog_loader \<times> (error + blog_page)" where
  "click_category monthYear c bl pg =
     (let bl1 = bl\<lparr>currentCategory := c\<rparr> in (bl1, renderPosts monthYear bl1 pg))"

definition showError :: "string \<Rightarrow> blog_page \<Rightarrow> blog_page" where
  "showError msg pg =
     (case postsGrid pg of None \<Rightarrow> pg | Some g \<Rightarrow> pg\<lparr>postsGrid := Some (GridError msg)\<rparr>)"

text \<open>What \<open>init\<close> renders once \<open>fetchAllPosts\<close> has filled the loader.\<close>

definition init_render :: "(string \<Rightarrow> string) \<Rightarrow> blog_loader \<Rightarrow> blog_page \<Rightarrow> blog_page" where
  "init_render monthYear bl pg =
     (if length (posts bl) = 0 then showError ''No blog posts found.'' pg
      else (let pg1 = renderFeaturedArticle (Some (hd (posts bl))) pg
            in case renderPosts monthYear bl pg1 of
                 Inl e \<Rightarrow> showError ''Failed to load blog posts. Please try again later.'' pg1
               | Inr pg2 \<Rightarrow> pg2))"

text \<open>The addresses a page links to: those of the cards in the grid, in order, and with
  the featured post's all the addresses of posts on the page.\<close>

definition grid_urls :: "blog_page \<Rightarrow> string list" where
  "grid_urls pg = (case postsGrid pg of Some (Cards cs) \<Rightarrow> map card_url cs | _ \<Rightarrow> [])"

definition page_urls :: "blog_page \<Rightarrow> string set" where
  "page_urls pg =
     (case featuredSection pg of Some (FeaturedPost p) \<Rightarrow> {url p} | _ \<Rightarrow> {})
     \<union> set (grid_urls pg)"

section \<open>Partial includes (\<open>js/includes.js\<close>, first script)\<close>

record nav_link =
  link_href :: "string option"
  link_active :: bool

text \<open>
  \<open>setActiveNavLink\<close>: \<open>pathname\<close> is \<open>location.pathname\<close>; the link to the current
  file gets the class \<open>active\<close>, every other link loses it.
\<close>

definition setActiveNavLink :: "string \<Rightarrow> nav_link list \<Rightarrow> nav_link list" where
  "setActiveNavLink pathname links =
     (let lst = last (split_on (CHR ''/'') pathname);
          current = (if lst = [] then ''index.html'' else lst)
      in map (\<lambda>l. l\<lparr>link_active :=
                       (link_href l = Some current
                        \<or> (current = [] \<and> link_href l = Some ''index.html''))\<rparr>) links)"

text \<open>
  The document: the content of the two containers, each absent when the page has no such
  element, and its \<open>.nav-link\<close> elements.
\<close>

record dom =
  site_header :: "string option"
  site_footer :: "string option"
  nav :: "nav_link list"

datatype settled = Fulfilled | Rejected

text \<open>
  \<open>loadHeader\<close>. \<open>relink\<close> gives the document's \<open>.nav-link\<close> elements once the header
  holds the new markup; \<open>initNav\<close> is \<open>window.initNav\<close>, absent or a function on the
  navigation that may throw. The final \<open>catch\<close> swallows every rejection.
\<close>

definition loadHeader ::
  "(string \<Rightarrow> nav_link list \<Rightarrow> nav_link list) \<Rightarrow> (nav_link list \<Rightarrow> nav_link list option) option
     \<Rightarrow> string \<Rightarrow> string fetched \<Rightarrow> dom \<Rightarrow> dom \<times> settled" where
  "loadHeader relink initNav pathname resp d =
     (case site_header d of
        None \<Rightarrow> (d, Fulfilled)
      | Some old \<Rightarrow>
          (case resp of
             NetworkError \<Rightarrow> (d, Fulfilled)
           | Response ok st html \<Rightarrow>
               (let d1 = d\<lparr>site_header := Some html, nav := relink html (nav d)\<rparr>
                in case initNav of
                     None \<Rightarrow> (d1\<lparr>nav := setActiveNavLink pathname (nav d1)\<rparr>, Fulfilled)
                   | Some f \<Rightarrow>
                       (case f (nav d1) of
                          None \<Rightarrow> (d1, Fulfilled)
                        | Some n \<Rightarrow> (d1\<lparr>nav := setActiveNavLink pathname n\<rparr>, Fulfilled)))))"

definition loadFooter :: "string fetched \<Rightarrow> dom \<Rightarrow> dom \<times> settled" where
  "loadFooter resp d =
     (case site_footer d of
        None \<Rightarrow> (d, Fulfilled)
      | Some old \<Rightarrow>
          (case resp of
             NetworkError \<Rightarrow> (d, Fulfilled)
           | Response ok st html \<Rightarrow> (d\<lparr>site_footer := Some html\<rparr>, Fulfilled)))"

section \<open>Example inputs\<close>

text \<open>7 January 2025, and a host parser that accepts that day in the two spellings the
  pipeline produces and rejects every other text.\<close>

definition jan7 :: js_date where
  "jan7 = \<lparr>getFullYear = 2025, getMonth = 0, getDate = 7, getTime = 1736208000000\<rparr>"

definition host_parser :: date_parser where
  "host_parser s = (if s = ''Jan 7, 2025'' \<or> s = ''2025-01-07'' then Some jan7 else None)"

text \<open>Two list items of an index page: the first dated in words no parser reads, the
  second as the blog dates its posts.\<close>

definition item_undated :: list_item where
  "item_undated = \<lparr>link = Some (''Release notes'', Some ''/2025/02/01/release-notes''),
                    spans = [''Posted on 31/12/2025'']\<rparr>"

definition item_dated :: list_item where
  "item_dated = \<lparr>link = Some (''My Post'', Some ''/2025/01/07/my-post''),
                  spans = [''Jan 7, 2025'']\<rparr>"

text \<open>A post as scraped, twelve of them, and three enriched posts on a blog page.\<close>

definition skeleton :: post where
  "skeleton = \<lparr>title = ''My Post'', url = ''https://blog.mlc.ai/2025/01/07/my-post'',
                date = Some ''2025-01-07'', formattedDate = ''January 7, 2025'',
                rawDate = Some ''Jan 7, 2025'', excerpt = None, category = None,
                readTime = None\<rparr>"

definition twelve_posts :: "post list" where
  "twelve_posts =
     map (\<lambda>n. skeleton\<lparr>url := ''https://blog.mlc.ai/2025/01/07/post-'' @ show_nat n\<rparr>) [0..<12]"

definition research_post :: post where
  "research_post = skeleton\<lparr>title := ''A study'', url := ''https://blog.mlc.ai/2025/03/01/study'',
                      date := Some ''2025-03-01'', category := Some ''research''\<rparr>"

definition tutorial_post :: post where
  "tutorial_post = skeleton\<lparr>title := ''A guide'', url := ''https://blog.mlc.ai/2025/02/01/guide'',
                      date := Some ''2025-02-01'', category := Some ''tutorials''\<rparr>"

definition older_tutorial_post :: post where
  "older_tutorial_post = skeleton\<lparr>title := ''A tutorial'', category := Some ''tutorials''\<rparr>"

definition example_loader :: blog_loader where
  "example_loader =
     new_blog_loader\<lparr>posts := [research_post, tutorial_post, older_tutorial_post]\<rparr>"

definition example_page :: blog_page where
  "example_page = \<lparr>featuredSection = Some FeaturedPlaceholder, postsGrid = Some GridLoading\<rparr>"

text \<open>A document whose two containers hold placeholders.\<close>

definition old_dom :: dom where
  "old_dom = \<lparr>site_header = Some ''<nav>placeholder</nav>'',
               site_footer = Some ''<p>placeholder</p>'', nav = []\<rparr>"

section \<open>Properties\<close>

subsection \<open>Category detection\<close>

text \<open>
  C9. The category depends on the title alone: two bodies give the same category.
  The category is always one of tutorials, optimization, deployment and research,
  and it is deployment when the lower-cased title contains none of the keywords.
\<close>

theorem determineCategory_title_only:
  "determineCategory ttl b1 = determineCategory ttl b2
   \<and> determineCategory ttl b1 \<in> {''tutorials'', ''optimization'', ''deployment'', ''research''}
   \<and> ((\<forall>k \<in> set title_keywords. \<not> str_includes (toLowerCase ttl) k)
        \<longrightarrow> determineCategory ttl b1 = ''deployment'')"
  by (simp add: determineCategory_def Let_def title_keywords_def)

theorem determineCategory_title_only_witness:
  "determineCategory ''Hello'' ''a tutorial'' = determineCategory ''Hello'' ''research paper''
   \<and> determineCategory ''Hello'' ''a tutorial'' = ''deployment''
   \<and> list_all (\<lambda>k. \<not> str_includes (toLowerCase ''Hello'') k) title_keywords"
proof -
  have h: "\<forall>k \<in> set title_keywords. \<not> str_includes (toLowerCase ''Hello'') k"
    by (simp add: title_keywords_def toLowerCase_def lower_char_def)
  from determineCategory_title_only [of "''Hello''" "''a tutorial''" "''research paper''"] h
  show ?thesis unfolding list_all_iff by blast
qed

subsection \<open>Repository identifiers\<close>

lemma startsWith_iff: "startsWith s p \<longleftrightarrow> (\<exists>r. s = p @ r)"
  by (induction s p rule: startsWith.induct) auto

lemma segment_Cons: "segment (c # cs) = (if c = CHR ''/'' then [] else c # segment cs)"
  by (simp add: segment_def)

lemma segment_Nil: "segment [] = []"
  by (simp add: segment_def)

lemma segment_notin: "CHR ''/'' \<notin> set (segment s)"
  by (induction s) (auto simp: segment_Cons segment_Nil)

lemma segment_rest: "\<exists>r. s = segment s @ r \<and> (r = [] \<or> hd r = CHR ''/'')"
  by (induction s) (auto simp: segment_Cons segment_Nil)

lemma segment_append:
  "CHR ''/'' \<notin> set a \<Longrightarrow> r = [] \<or> hd r = CHR ''/'' \<Longrightarrow> segment (a @ r) = a"
  by (induction a) (auto simp: segment_Cons segment_Nil; cases r; auto simp: segment_Cons segment_Nil)+

lemma match_here_iff:
  "match_here s = Some m \<longleftrightarrow>
     (\<exists>s1 s2 rest. s = marker @ s1 @ ''/'' @ s2 @ rest \<and> s1 \<noteq> [] \<and> s2 \<noteq> []
        \<and> CHR ''/'' \<notin> set s1 \<and> CHR ''/'' \<notin> set s2 \<and> (rest = [] \<or> hd rest = CHR ''/'')
        \<and> m = s1 @ ''/'' @ s2)" (is "?L \<longleftrightarrow> ?R")
proof
  assume L: ?L
  then have sw: "startsWith s marker"
    by (auto simp: match_here_def split: if_splits)
  then obtain t where t: "s = marker @ t" by (auto simp: startsWith_iff)
  obtain u where u: "t = segment t @ u" "u = [] \<or> hd u = CHR ''/''"
    using segment_rest by blast
  have du: "drop (length (segment t)) t = u" using u(1) by (metis append_eq_conv_conj)
  from L sw t du have s1: "segment t \<noteq> []" and "u \<noteq> []"
    by (auto simp: match_here_def Let_def split: if_splits list.splits)
  then obtain v where v: "u = CHR ''/'' # v" using u(2) by (cases u) auto
  obtain w where w: "v = segment v @ w" "w = [] \<or> hd w = CHR ''/''"
    using segment_rest by blast
  from L sw t du v s1 have s2: "segment v \<noteq> []" and m: "m = segment t @ ''/'' @ segment v"
    by (auto simp: match_here_def Let_def split: if_splits list.splits)
  have "s = marker @ segment t @ ''/'' @ segment v @ w"
    using t u(1) v w(1) by (metis append_Cons append_Nil)
  with s1 s2 m w(2) segment_notin show ?R by blast
next
  assume ?R
  then obtain s1 s2 rest where h: "s = marker @ s1 @ ''/'' @ s2 @ rest" "s1 \<noteq> []" "s2 \<noteq> []"
     "CHR ''/'' \<notin> set s1" "CHR ''/'' \<notin> set s2" "rest = [] \<or> hd rest = CHR ''/''"
     "m = s1 @ ''/'' @ s2" by blast
  have sw: "startsWith s marker" using h(1) by (auto simp: startsWith_iff)
  have d: "drop (length marker) s = s1 @ ''/'' @ s2 @ rest" using h(1) by simp
  have g1: "segment (s1 @ ''/'' @ s2 @ rest) = s1" using h(4) by (intro segment_append) auto
  have g2: "segment (s2 @ rest) = s2" using h(5,6) by (intro segment_append) auto
  show ?L using sw d g1 g2 h(2,3,7) by (simp add: match_here_def Let_def)
qed

lemma match_github_iff:
  "match_github h = Some m \<longleftrightarrow>
     (\<exists>pre suf. h = pre @ suf \<and> match_here suf = Some m
        \<and> (\<forall>k<length pre. match_here (drop k h) = None))"
proof (induction h)
  case Nil
  then show ?case by auto
next
  case (Cons c cs)
  show ?case
  proof (cases "match_here (c # cs)")
    case (Some a)
    have "(\<exists>pre suf. c # cs = pre @ suf \<and> match_here suf = Some m
        \<and> (\<forall>k<length pre. match_here (drop k (c # cs)) = None)) \<longleftrightarrow> a = m"
    proof
      assume "\<exists>pre suf. c # cs = pre @ suf \<and> match_here suf = Some m
        \<and> (\<forall>k<length pre. match_here (drop k (c # cs)) = None)"
      then obtain pre suf where p: "c # cs = pre @ suf" "match_here suf = Some m"
        "\<forall>k<length pre. match_here (drop k (c # cs)) = None" by blast
      have "pre = []"
      proof (rule ccontr)
        assume "pre \<noteq> []"
        then have "0 < length pre" by simp
        with p(3) have "match_here (drop 0 (c # cs)) = None" by blast
        with Some show False by simp
      qed
      with p Some show "a = m" by simp
    next
      assume "a = m"
      with Some have "c # cs = [] @ (c # cs) \<and> match_here (c # cs) = Some m
        \<and> (\<forall>k<length ([]::string). match_here (drop k (c # cs)) = None)" by simp
      then show "\<exists>pre suf. c # cs = pre @ suf \<and> match_here suf = Some m
        \<and> (\<forall>k<length pre. match_here (drop k (c # cs)) = None)" by blast
    qed
    with Some show ?thesis by simp
  next
    case None
    have "(\<exists>pre suf. c # cs = pre @ suf \<and> match_here suf = Some m
        \<and> (\<forall>k<length pre. match_here (drop k (c # cs)) = None)) \<longleftrightarrow>
          (\<exists>pre suf. cs = pre @ suf \<and> match_here suf = Some m
        \<and> (\<forall>k<length pre. match_here (drop k cs) = None))" (is "?A \<longleftrightarrow> ?B")
    proof
      assume ?A
      then obtain pre suf where p: "c # cs = pre @ suf" "match_here suf = Some m"
        "\<forall>k<length pre. match_here (drop k (c # cs)) = None" by blast
      from p(1,2) None obtain pre' where pre': "pre = c # pre'" by (cases pre) auto
      with p(1) have 1: "cs = pre' @ suf" by simp
      have "\<forall>k<length pre'. match_here (drop k cs) = None"
      proof (intro allI impI)
        fix k assume "k < length pre'"
        then have "Suc k < length pre" using pre' by simp
        with p(3) have "match_here (drop (Suc k) (c # cs)) = None" by blast
        then show "match_here (drop k cs) = None" by simp
      qed
      with 1 p(2) show ?B by blast
    next
      assume ?B
      then obtain pre suf where p: "cs = pre @ suf" "match_here suf = Some m"
        "\<forall>k<length pre. match_here (drop k cs) = None" by blast
      have "\<forall>k<length (c # pre). match_here (drop k (c # cs)) = None"
      proof (intro allI impI)
        fix k assume k: "k < length (c # pre)"
        show "match_here (drop k (c # cs)) = None"
        proof (cases k)
          case 0
          with None show ?thesis by simp
        next
          case (Suc j)
          with k have "j < length pre" by simp
          with p(3) Suc show ?thesis by simp
        qed
      qed
      moreover have "c # cs = (c # pre) @ suf" using p(1) by simp
      ultimately show ?A using p(2) by blast
    qed
    with None Cons.IH show ?thesis by simp
  qed
qed

lemma split_on_no_sep: "d \<notin> set s \<Longrightarrow> split_on d s = [s]"
  by (induction s) auto

lemma split_on_append: "d \<notin> set a \<Longrightarrow> split_on d (a @ d # b) = a # split_on d b"
  by (induction a) auto

lemma match_here_shape:
  assumes "match_here s = Some m"
  shows "strip_trailing_slash m = m \<and> m \<noteq> [] \<and> length (split_on (CHR ''/'') m) = 2"
proof -
  from assms obtain s1 s2 where h: "m = s1 @ ''/'' @ s2" "s1 \<noteq> []" "s2 \<noteq> []"
    "CHR ''/'' \<notin> set s1" "CHR ''/'' \<notin> set s2"
    unfolding match_here_iff by blast
  have "last m = last s2" using h(1,3) by simp
  moreover have "last s2 \<in> set s2" using h(3) by simp
  ultimately have "last m \<noteq> CHR ''/''" using h(5) by metis
  then have 1: "strip_trailing_slash m = m" by (simp add: strip_trailing_slash_def)
  have "split_on (CHR ''/'') m = s1 # split_on (CHR ''/'') s2"
    using h(1,4) split_on_append [of "CHR ''/''" s1 s2] by simp
  then have "length (split_on (CHR ''/'') m) = 2" using h(5) by (simp add: split_on_no_sep)
  with 1 h(1) show ?thesis by simp
qed

lemma repo_of_href_match:
  "repo_of_href h = Some r \<longleftrightarrow> match_github h = Some r \<and> \<not> endsWith r ''.com''"
proof (cases "match_github h")
  case None
  then show ?thesis by (simp add: repo_of_href_def)
next
  case (Some m)
  then obtain suf where "match_here suf = Some m" unfolding match_github_iff by blast
  from match_here_shape [OF this] Some show ?thesis
    by (auto simp: repo_of_href_def Let_def)
qed

lemma foldl_set_add_set: "set (foldl set_add acc xs) = set acc \<union> set xs"
  by (induction xs arbitrary: acc) (auto simp: set_add_def)

lemma foldl_set_add_distinct: "distinct acc \<Longrightarrow> distinct (foldl set_add acc xs)"
  by (induction xs arbitrary: acc) (auto simp: set_add_def)

lemma set_add_in: "x \<in> set s \<Longrightarrow> set_add s x = s"
  by (simp add: set_add_def)

lemma set_add_notin: "x \<notin> set s \<Longrightarrow> set_add s x = s @ [x]"
  by (simp add: set_add_def)

lemma first_index_append_in:
  "a \<in> set xs \<Longrightarrow> first_index (xs @ ys) a = first_index xs a"
  by (simp add: first_index_def takeWhile_append1)

lemma first_index_less: "a \<in> set xs \<Longrightarrow> first_index xs a < length xs"
  unfolding first_index_def by (induction xs) auto

lemma first_index_new: "x \<notin> set xs \<Longrightarrow> first_index (xs @ [x]) x = length xs"
  unfolding first_index_def by (induction xs) auto

lemma foldl_set_add_order:
  "sorted_wrt (\<lambda>a b. first_index xs a < first_index xs b) (foldl set_add [] xs)"
proof (induction xs rule: rev_induct)
  case Nil
  then show ?case by simp
next
  case (snoc x xs)
  let ?out = "foldl set_add [] xs"
  have so: "set ?out = set xs" by (simp add: foldl_set_add_set)
  have keep: "sorted_wrt (\<lambda>a b. first_index (xs @ [x]) a < first_index (xs @ [x]) b) ?out"
    using snoc.IH
    by (rule sorted_wrt_mono_rel [rotated]) (simp add: so first_index_append_in)
  show ?case
  proof (cases "x \<in> set xs")
    case True
    then have "set_add ?out x = ?out" by (simp add: set_add_in so)
    then show ?thesis using keep by simp
  next
    case False
    then have e: "set_add ?out x = ?out @ [x]" by (simp add: set_add_notin so)
    have "\<forall>a \<in> set ?out. first_index (xs @ [x]) a < first_index (xs @ [x]) x"
      using False by (simp add: so first_index_append_in first_index_less first_index_new)
    then show ?thesis using keep e by (simp add: sorted_wrt_append)
  qed
qed

lemma str_includes_iff: "str_includes s sub \<longleftrightarrow> (\<exists>a b. s = a @ sub @ b)"
proof (induction s)
  case Nil
  then show ?case by (cases sub) auto
next
  case (Cons c cs)
  show ?case
  proof
    assume "str_includes (c # cs) sub"
    then consider "startsWith (c # cs) sub" | "str_includes cs sub" by auto
    then show "\<exists>a b. c # cs = a @ sub @ b"
    proof cases
      case 1
      then obtain r where "c # cs = sub @ r" by (auto simp: startsWith_iff)
      then have "c # cs = [] @ sub @ r" by simp
      then show ?thesis by blast
    next
      case 2
      then obtain a b where "cs = a @ sub @ b" using Cons.IH by blast
      then have "c # cs = (c # a) @ sub @ b" by simp
      then show ?thesis by blast
    qed
  next
    assume "\<exists>a b. c # cs = a @ sub @ b"
    then obtain a b where ab: "c # cs = a @ sub @ b" by blast
    show "str_includes (c # cs) sub"
    proof (cases a)
      case Nil
      with ab have "startsWith (c # cs) sub" by (auto simp: startsWith_iff)
      then show ?thesis by simp
    next
      case (Cons x a')
      with ab have "cs = a' @ sub @ b" by simp
      then have "str_includes cs sub" using Cons.IH by blast
      then show ?thesis by simp
    qed
  qed
qed

lemma repo_of_href_includes:
  assumes "repo_of_href h = Some r"
  shows "str_includes h ''github.com''"
proof -
  from assms have "match_github h = Some r" by (simp add: repo_of_href_match)
  then obtain pre suf where p: "h = pre @ suf" "match_here suf = Some r"
    unfolding match_github_iff by blast
  from p(2) obtain t where "suf = marker @ t" unfolding match_here_iff by blast
  then have "h = pre @ ''github.com'' @ (''/'' @ t)" using p(1) by (simp add: marker_def)
  then show ?thesis unfolding str_includes_iff by blast
qed

lemma yielded_Cons:
  "yielded (a # doc) = (case anchor_yield a of None \<Rightarrow> [] | Some q \<Rightarrow> [q]) @ yielded doc"
  by (simp add: yielded_def List.map_filter_simps split: option.splits)

lemma visit_link_yield:
  "visit_link acc a = (case anchor_yield a of None \<Rightarrow> acc | Some q \<Rightarrow> set_add acc q)"
proof (cases a)
  case None
  then show ?thesis by (simp add: visit_link_def anchor_yield_def)
next
  case (Some h)
  show ?thesis
  proof (cases "repo_of_href h")
    case None
    then show ?thesis using Some by (simp add: visit_link_def anchor_yield_def)
  next
    case r: (Some q)
    then have "str_includes h ''github.com''" by (rule repo_of_href_includes)
    moreover from this have "h \<noteq> []" by auto
    ultimately show ?thesis using Some r by (simp add: visit_link_def anchor_yield_def)
  qed
qed

lemma visit_link_unselected:
  "a \<notin> set (querySelectorAll_github [a]) \<Longrightarrow> anchor_yield a = None"
  by (cases a) (auto simp: querySelectorAll_github_def anchor_yield_def)

lemma foldl_visit_link:
  "foldl visit_link acc (querySelectorAll_github doc) = foldl set_add acc (yielded doc)"
proof (induction doc arbitrary: acc)
  case Nil
  then show ?case by (simp add: querySelectorAll_github_def yielded_def List.map_filter_simps)
next
  case (Cons a doc)
  have q: "querySelectorAll_github (a # doc) =
             querySelectorAll_github [a] @ querySelectorAll_github doc"
    by (simp add: querySelectorAll_github_def)
  have "foldl visit_link acc (querySelectorAll_github [a]) =
          foldl set_add acc (case anchor_yield a of None \<Rightarrow> [] | Some q \<Rightarrow> [q])"
  proof (cases "a \<in> set (querySelectorAll_github [a])")
    case True
    then have "querySelectorAll_github [a] = [a]"
      by (auto simp: querySelectorAll_github_def split: if_splits)
    then show ?thesis by (simp add: visit_link_yield split: option.splits)
  next
    case False
    then have "querySelectorAll_github [a] = []"
      by (auto simp: querySelectorAll_github_def split: if_splits)
    with visit_link_unselected [OF False] show ?thesis by simp
  qed
  then show ?case unfolding q yielded_Cons using Cons.IH by simp
qed

lemma set_yielded:
  "ident \<in> set (yielded doc) \<longleftrightarrow>
     (\<exists>h. Some h \<in> set doc \<and> str_includes h ''github.com'' \<and> repo_of_href h = Some ident)"
proof -
  have "ident \<in> set (yielded doc) \<longleftrightarrow> (\<exists>a. a \<in> set doc \<and> anchor_yield a = Some ident)"
    unfolding yielded_def
    by (induction doc) (auto simp: List.map_filter_simps split: option.splits)
  also have "\<dots> \<longleftrightarrow>
     (\<exists>h. Some h \<in> set doc \<and> str_includes h ''github.com'' \<and> repo_of_href h = Some ident)"
  proof
    assume "\<exists>a. a \<in> set doc \<and> anchor_yield a = Some ident"
    then obtain a where a: "a \<in> set doc" "anchor_yield a = Some ident" by blast
    from a(2) have "a \<noteq> None" by (auto simp: anchor_yield_def split: option.splits)
    then obtain h where "a = Some h" by auto
    with a show "\<exists>h. Some h \<in> set doc \<and> str_includes h ''github.com''
        \<and> repo_of_href h = Some ident"
      by (auto simp: anchor_yield_def split: if_splits)
  next
    assume "\<exists>h. Some h \<in> set doc \<and> str_includes h ''github.com''
        \<and> repo_of_href h = Some ident"
    then obtain h where "Some h \<in> set doc" "anchor_yield (Some h) = Some ident"
      by (auto simp: anchor_yield_def)
    then show "\<exists>a. a \<in> set doc \<and> anchor_yield a = Some ident" by blast
  qed
  finally show ?thesis .
qed

lemma repo_of_href_iff:
  "repo_of_href h = Some ident \<longleftrightarrow>
      (\<exists>pre s1 s2 rest. h = pre @ marker @ s1 @ ''/'' @ s2 @ rest
         \<and> (\<forall>k<length pre. match_here (drop k h) = None)
         \<and> s1 \<noteq> [] \<and> s2 \<noteq> [] \<and> CHR ''/'' \<notin> set s1 \<and> CHR ''/'' \<notin> set s2
         \<and> (rest = [] \<or> hd rest = CHR ''/'')
         \<and> ident = s1 @ ''/'' @ s2 \<and> \<not> endsWith ident ''.com'')" (is "?L \<longleftrightarrow> ?R")
proof
  assume ?L
  then have m: "match_github h = Some ident" and e: "\<not> endsWith ident ''.com''"
    by (simp_all add: repo_of_href_match)
  from m obtain pre suf where p: "h = pre @ suf" "match_here suf = Some ident"
    "\<forall>k<length pre. match_here (drop k h) = None"
    unfolding match_github_iff by blast
  from p(2) obtain s1 s2 rest where q: "suf = marker @ s1 @ ''/'' @ s2 @ rest" "s1 \<noteq> []"
    "s2 \<noteq> []" "CHR ''/'' \<notin> set s1" "CHR ''/'' \<notin> set s2" "rest = [] \<or> hd rest = CHR ''/''"
    "ident = s1 @ ''/'' @ s2"
    unfolding match_here_iff by blast
  from p(1) q(1) have "h = pre @ marker @ s1 @ ''/'' @ s2 @ rest" by simp
  with p(3) q(2-7) e show ?R by blast
next
  assume ?R
  then obtain pre s1 s2 rest where q: "h = pre @ marker @ s1 @ ''/'' @ s2 @ rest"
    "\<forall>k<length pre. match_here (drop k h) = None" "s1 \<noteq> []"
    "s2 \<noteq> []" "CHR ''/'' \<notin> set s1" "CHR ''/'' \<notin> set s2" "rest = [] \<or> hd rest = CHR ''/''"
    "ident = s1 @ ''/'' @ s2" "\<not> endsWith ident ''.com''" by blast
  have "match_here (marker @ s1 @ ''/'' @ s2 @ rest) = Some ident"
    unfolding match_here_iff using q(3-8) by blast
  with q(1,2) have "match_github h = Some ident"
    unfolding match_github_iff by blast
  with q(9) show ?L by (simp add: repo_of_href_match)
qed

lemma extract_ok:
  "extractGitHubRepos (Response True st doc) l =
     (foldl set_add [] (yielded doc), l\<lparr>repos := foldl set_add [] (yielded doc)\<rparr>)"
  by (simp add: extractGitHubRepos_def foldl_visit_link Let_def)

text \<open>
  C1, as the code has it. A link yields an identifier exactly when its \<open>href\<close> holds the
  marker \<open>github.com/\<close> followed by at least two non-empty segments, at the leftmost
  position where that is so, and the captured \<open>owner/name\<close> does not end in \<open>.com\<close>;
  whatever follows the second segment is ignored. The identifiers returned are those the
  selected anchors yield, each once, in the order of their first appearance in the
  document, and the loader stores the same list.
\<close>

theorem extractGitHubRepos_identifiers:
  "(repo_of_href h = Some ident \<longleftrightarrow>
      (\<exists>pre s1 s2 rest. h = pre @ marker @ s1 @ ''/'' @ s2 @ rest
         \<and> (\<forall>k<length pre. match_here (drop k h) = None)
         \<and> s1 \<noteq> [] \<and> s2 \<noteq> [] \<and> CHR ''/'' \<notin> set s1 \<and> CHR ''/'' \<notin> set s2
         \<and> (rest = [] \<or> hd rest = CHR ''/'')
         \<and> ident = s1 @ ''/'' @ s2 \<and> \<not> endsWith ident ''.com''))
   \<and> (r \<in> set (fst (extractGitHubRepos (Response True st doc) l)) \<longleftrightarrow>
        (\<exists>a. Some a \<in> set doc \<and> str_includes a ''github.com'' \<and> repo_of_href a = Some r))
   \<and> distinct (fst (extractGitHubRepos (Response True st doc) l))
   \<and> set (fst (extractGitHubRepos (Response True st doc) l)) = set (yielded doc)
   \<and> sorted_wrt (\<lambda>x y. first_index (yielded doc) x < first_index (yielded doc) y)
        (fst (extractGitHubRepos (Response True st doc) l))
   \<and> repos (snd (extractGitHubRepos (Response True st doc) l))
        = fst (extractGitHubRepos (Response True st doc) l)"
proof -
  have 1: "set (foldl set_add [] (yielded doc)) = set (yielded doc)"
    by (simp add: foldl_set_add_set)
  have 2: "distinct (foldl set_add [] (yielded doc))"
    by (simp add: foldl_set_add_distinct)
  show ?thesis
    unfolding extract_ok fst_conv snd_conv
    using repo_of_href_iff [of h ident] 1 2 set_yielded [of r doc] foldl_set_add_order [of "yielded doc"]
    by simp
qed

theorem extractGitHubRepos_identifiers_witness:
  "repo_of_href ''https://github.com/a/b/c'' = Some ''a/b''
   \<and> (\<exists>pre s1 s2 rest. ''https://github.com/a/b/c'' = pre @ marker @ s1 @ ''/'' @ s2 @ rest
         \<and> (\<forall>k<length pre. match_here (drop k ''https://github.com/a/b/c'') = None)
         \<and> s1 \<noteq> [] \<and> s2 \<noteq> [] \<and> CHR ''/'' \<notin> set s1 \<and> CHR ''/'' \<notin> set s2
         \<and> (rest = [] \<or> hd rest = CHR ''/'')
         \<and> ''a/b'' = s1 @ ''/'' @ s2 \<and> \<not> endsWith ''a/b'' ''.com'')
   \<and> distinct (fst (extractGitHubRepos
         (Response True 200 [Some ''https://github.com/a/b/c'', Some ''https://github.com/a/b'']) new_loader))"
proof -
  have e: "repo_of_href ''https://github.com/a/b/c'' = Some ''a/b''"
    by code_simp
  from e extractGitHubRepos_identifiers [of "''https://github.com/a/b/c''" "''a/b''" "''a/b''" 200
      "[Some ''https://github.com/a/b/c'', Some ''https://github.com/a/b'']" new_loader]
  show ?thesis by blast
qed

text \<open>
  The claim as stated asks for exactly two segments. A link into a repository (three
  segments after the host) still yields the repository's identifier.
\<close>

theorem extractGitHubRepos_longer_path_counterexample:
  "fst (extractGitHubRepos
      (Response True 200 [Some ''https://github.com/mlc-ai/mlc-llm/issues'']) new_loader)
     = [''mlc-ai/mlc-llm'']
   \<and> \<not> spec_two_segments ''https://github.com/mlc-ai/mlc-llm/issues''"
  by code_simp

subsection \<open>Totals without repositories\<close>

text \<open>
  C7. When the loader has no repositories and the extraction leaves it with none,
  \<open>fetchAllStats\<close> returns zero stars and zero forks, and the only request issued is
  the one for \<open>projects.html\<close>: no repository is looked up.
\<close>

theorem fetchAllStats_no_repos:
  assumes "repos l = []" and "repos (snd (extractGitHubRepos page l)) = []"
  shows "fst (fetchAllStats page api l) = \<lparr>sum_stars = 0, sum_forks = 0\<rparr>
       \<and> snd (snd (fetchAllStats page api l)) = [GetPage ''projects.html'']
       \<and> filter is_lookup (snd (snd (fetchAllStats page api l))) = []"
  using assms by (simp add: fetchAllStats_def Let_def is_lookup_def)

theorem fetchAllStats_no_repos_witness:
  "repos new_loader = []
   \<and> repos (snd (extractGitHubRepos (Response True 200 [Some ''https://example.org/about'', None]) new_loader)) = []
   \<and> fst (fetchAllStats (Response True 200 [Some ''https://example.org/about'', None]) (\<lambda>repo. NetworkError) new_loader)
        = \<lparr>sum_stars = 0, sum_forks = 0\<rparr>
   \<and> filter is_lookup (snd (snd (fetchAllStats (Response True 200 [Some ''https://example.org/about'', None]) (\<lambda>repo. NetworkError) new_loader))) = []"
proof -
  have a: "repos new_loader = []" by (simp add: new_loader_def)
  have b: "repos (snd (extractGitHubRepos (Response True 200 [Some ''https://example.org/about'', None]) new_loader)) = []"
    by code_simp
  from fetchAllStats_no_repos [OF a b] a b show ?thesis by blast
qed

subsection \<open>Formatting a total\<close>

lemmas fmt_eval = formatNumber_def double_div_def toFixed1_def round_half_even_def
  bit_length.simps show_nat.simps digit_char_def Let_def

lemma round_half_even_bounds:
  assumes "0 < d"
  shows "2 * (round_half_even n d * d) \<le> 2 * n + d"
    and "2 * n \<le> 2 * (round_half_even n d * d) + d"
proof -
  have n: "n = (n div d) * d + n mod d" by simp
  have r: "n mod d < d" using assms by simp
  define q where "q = n div d"
  define r where "r = n mod d"
  have n': "n = q * d + r" and r': "r < d" using n r by (simp_all add: q_def r_def)
  have rhe: "round_half_even n d = (if 2 * r < d then q else if d < 2 * r then q + 1
         else if even q then q else q + 1)"
    by (simp add: round_half_even_def Let_def q_def r_def)
  define R where "R = round_half_even n d"
  have R: "R = q \<and> 2 * r \<le> d \<or> R = q + 1 \<and> d \<le> 2 * r"
    unfolding R_def rhe by auto
  have "2 * (R * d) \<le> 2 * n + d \<and> 2 * n \<le> 2 * (R * d) + d"
    using R r' unfolding n' by (auto simp: algebra_simps)
  then show "2 * (round_half_even n d * d) \<le> 2 * n + d"
    and "2 * n \<le> 2 * (round_half_even n d * d) + d"
    unfolding R_def by simp_all
qed

lemma bit_length_le: "n < 2 ^ k \<Longrightarrow> bit_length n \<le> k"
proof (induction k arbitrary: n)
  case 0
  then show ?case by (simp add: bit_length.simps)
next
  case (Suc k)
  then have "n div 2 < 2 ^ k" by simp
  then have "bit_length (n div 2) \<le> k" by (rule Suc.IH)
  then show ?case by (subst bit_length.simps) simp
qed

lemma toFixed_bounds:
  fixes m K :: nat
  assumes "0 < K"
  defines "n \<equiv> (20 * m + K) div (2 * K)"
  shows "2 * K * n \<le> 20 * m + K" and "20 * m + K < 2 * K * n + 2 * K"
proof -
  have "(20 * m + K) = (2 * K) * n + (20 * m + K) mod (2 * K)"
    unfolding n_def by simp
  moreover have "(20 * m + K) mod (2 * K) < 2 * K" using assms by simp
  ultimately show "2 * K * n \<le> 20 * m + K" and "20 * m + K < 2 * K * n + 2 * K"
    by linarith+
qed

lemma nearest_tenth:
  fixes a c m n K :: nat
  assumes A1: "2 * (m * (20 * c)) \<le> 2 * (a * K) + 20 * c"
      and A2: "2 * (a * K) \<le> 2 * (m * (20 * c)) + 20 * c"
      and B1: "2 * K * n \<le> 20 * m + K"
      and B2: "20 * m + K < 2 * K * n + 2 * K"
      and K: "10 * c < K"
  shows "2 * c * n \<le> a + c \<and> a \<le> 2 * c * n + c"
proof -
  define X where "X = K * (c * n)"
  define Y where "Y = m * c"
  define Z where "Z = a * K"
  define W where "W = c * K"
  have A1': "40 * Y \<le> 2 * Z + 20 * c" using A1 by (simp add: Y_def Z_def algebra_simps)
  have A2': "2 * Z \<le> 40 * Y + 20 * c" using A2 by (simp add: Y_def Z_def algebra_simps)
  have "c * (2 * K * n) \<le> c * (20 * m + K)" using B1 by (rule mult_le_mono2)
  then have B1': "2 * X \<le> 20 * Y + W" by (simp add: X_def Y_def W_def algebra_simps)
  have B2': "20 * Y + W \<le> 2 * X + 2 * W"
  proof -
    have "c * (20 * m + K) \<le> c * (2 * K * n + 2 * K)" using B2 by (intro mult_le_mono2) simp
    then show ?thesis by (simp add: X_def Y_def W_def algebra_simps)
  qed
  have 1: "2 * c * n \<le> a + c"
  proof (rule ccontr)
    assume "\<not> 2 * c * n \<le> a + c"
    then have "a + c + 1 \<le> 2 * c * n" by simp
    then have "K * (a + c + 1) \<le> K * (2 * c * n)" by (rule mult_le_mono2)
    then have "Z + W + K \<le> 2 * X" by (simp add: X_def Z_def W_def algebra_simps)
    with A1' B1' K show False by linarith
  qed
  have 2: "a \<le> 2 * c * n + c"
  proof (rule ccontr)
    assume "\<not> a \<le> 2 * c * n + c"
    then have "2 * c * n + c + 1 \<le> a" by simp
    then have "K * (2 * c * n + c + 1) \<le> K * a" by (rule mult_le_mono2)
    then have "2 * X + W + K \<le> Z" by (simp add: X_def Z_def W_def algebra_simps)
    with A2' B2' K show False by linarith
  qed
  from 1 2 show ?thesis ..
qed

lemma toFixed1_double_div:
  fixes a c :: nat
  assumes c: "0 < c" and ge: "20 * c \<le> a" and big: "10 * c < 2 ^ (53 - k)" and k: "a div (20 * c) < 2 ^ k"
  shows "\<exists>n. toFixed1 (double_div a (20 * c)) = show_nat (n div 10) @ ''.'' @ [digit_char (n mod 10)]
           \<and> 2 * c * n \<le> a + c \<and> a \<le> 2 * c * n + c"
proof -
  define sc where "sc = 53 - bit_length (a div (20 * c))"
  define K :: nat where "K = 2 ^ sc"
  define m where "m = round_half_even (a * K) (20 * c)"
  define n where "n = (20 * m + K) div (2 * K)"
  have "bit_length (a div (20 * c)) \<le> k" using k by (rule bit_length_le)
  then have "53 - k \<le> sc" by (simp add: sc_def)
  then have "(2::nat) ^ (53 - k) \<le> 2 ^ sc" by (simp add: power_increasing)
  with big have K: "10 * c < K" unfolding K_def by linarith
  have K0: "0 < K" by (simp add: K_def)
  have b0: "0 < 20 * c" using c by simp
  note A = round_half_even_bounds [OF b0, of "a * K", folded m_def]
  note B = toFixed_bounds [OF K0, of m, folded n_def]
  have nt: "2 * c * n \<le> a + c \<and> a \<le> 2 * c * n + c"
    using A B K by (intro nearest_tenth [where m = m and K = K]) simp_all
  have "toFixed1 (double_div a (20 * c)) = show_nat (n div 10) @ ''.'' @ show_nat (n mod 10)"
    by (simp add: toFixed1_def double_div_def Let_def sc_def K_def m_def n_def)
  moreover have "show_nat (n mod 10) = [digit_char (n mod 10)]"
    by (subst show_nat.simps) simp
  ultimately show ?thesis using nt by auto
qed

lemma formatNumber_examples:
  "formatNumber 999 = ''999''" "formatNumber 1000 = ''1.0K''"
  "formatNumber 1500 = ''1.5K''" "formatNumber 1000000 = ''1.0M''"
  by (simp_all add: fmt_eval)

lemma formatNumber_M:
  assumes "1000000 \<le> num" and "num < 2 ^ 53"
  shows "\<exists>n. formatNumber num = show_nat (n div 10) @ ''.'' @ [digit_char (n mod 10)] @ ''M''
           \<and> 100000 * n \<le> num + 50000 \<and> num \<le> 100000 * n + 50000"
proof -
  have "num div 1000000 < 2 ^ 34" using assms(2) by simp
  then have k: "num div (20 * 50000) < 2 ^ 34" by simp
  have "\<exists>n. toFixed1 (double_div num (20 * 50000)) =
            show_nat (n div 10) @ ''.'' @ [digit_char (n mod 10)]
           \<and> 2 * 50000 * n \<le> num + 50000 \<and> num \<le> 2 * 50000 * n + 50000"
    using assms(1) k by (intro toFixed1_double_div [where k = 34]) simp_all
  then show ?thesis using assms(1) by (auto simp: formatNumber_def)
qed

lemma formatNumber_K:
  assumes "1000 \<le> num" and "num < 1000000"
  shows "\<exists>n. formatNumber num = show_nat (n div 10) @ ''.'' @ [digit_char (n mod 10)] @ ''K''
           \<and> 100 * n \<le> num + 50 \<and> num \<le> 100 * n + 50"
proof -
  have "num div 1000 < 2 ^ 10" using assms(2) by simp
  then have k: "num div (20 * 50) < 2 ^ 10" by simp
  have "\<exists>n. toFixed1 (double_div num (20 * 50)) =
            show_nat (n div 10) @ ''.'' @ [digit_char (n mod 10)]
           \<and> 2 * 50 * n \<le> num + 50 \<and> num \<le> 2 * 50 * n + 50"
    using assms(1) k by (intro toFixed1_double_div [where k = 10]) simp_all
  then show ?thesis using assms by (auto simp: formatNumber_def)
qed

text \<open>
  C8. \<open>formatNumber\<close> prints 999 as \<open>999\<close>, 1000 as \<open>1.0K\<close>, 1500 as \<open>1.5K\<close> and 1000000
  as \<open>1.0M\<close>. A total of at least a million (below \<open>2^53\<close>, where every integer is a
  double) is printed as an integer part, a point, one digit and \<open>M\<close>, the number of tenths
  of a million being within a half of the total; a total from 1000 up to 999999 likewise
  with \<open>K\<close> and tenths of a thousand; a smaller total is printed as the plain integer.
\<close>

theorem formatNumber_scale:
  "formatNumber 999 = ''999'' \<and> formatNumber 1000 = ''1.0K''
   \<and> formatNumber 1500 = ''1.5K'' \<and> formatNumber 1000000 = ''1.0M''
   \<and> (1000000 \<le> num \<and> num < 2 ^ 53 \<longrightarrow>
        (\<exists>n. formatNumber num = show_nat (n div 10) @ ''.'' @ [digit_char (n mod 10)] @ ''M''
           \<and> 100000 * n \<le> num + 50000 \<and> num \<le> 100000 * n + 50000))
   \<and> (1000 \<le> num \<and> num < 1000000 \<longrightarrow>
        (\<exists>n. formatNumber num = show_nat (n div 10) @ ''.'' @ [digit_char (n mod 10)] @ ''K''
           \<and> 100 * n \<le> num + 50 \<and> num \<le> 100 * n + 50))
   \<and> (num < 1000 \<longrightarrow> formatNumber num = show_nat num)"
  using formatNumber_examples formatNumber_M [of num] formatNumber_K [of num]
  by (simp add: formatNumber_def)

theorem formatNumber_scale_witness:
  "(1000::nat) \<le> 12345 \<and> (12345::nat) < 1000000
   \<and> formatNumber 12345 = ''12.3K''
   \<and> (\<exists>n. formatNumber 12345 = show_nat (n div 10) @ ''.'' @ [digit_char (n mod 10)] @ ''K''
           \<and> 100 * n \<le> 12345 + 50 \<and> 12345 \<le> 100 * n + 50)"
proof -
  have e: "formatNumber 12345 = ''12.3K''" by (simp add: fmt_eval)
  have h: "(1000::nat) \<le> 12345 \<and> (12345::nat) < 1000000" by simp
  from formatNumber_scale [of 12345] h e show ?thesis by blast
qed

subsection \<open>Normalising a date\<close>

lemmas str_eval = toLowerCase_def lower_char_def is_space_def is_digit_def is_word_def
  padStart2_def months_def interpolate_def trim_def

text \<open>
  C2. \<open>Jan 7, 2025\<close> and \<open>January 7, 2025\<close> normalise to \<open>2025-01-07\<close>, by the manual
  parse as well as through a host parser that reads the text. But a text that neither
  parse can read is not always answered with \<open>null\<close>: the manual parse only counts the
  words, so \<open>not a date\<close>, three words of which the first is no month, gives the string
  \<open>date-undefined-0a\<close>.
\<close>

theorem parseDateString_undefined_month:
  "parseDateString (\<lambda>s. None) (Some ''Jan 7, 2025'') = Some ''2025-01-07''
   \<and> parseDateString (\<lambda>s. None) (Some ''January 7, 2025'') = Some ''2025-01-07''
   \<and> parseDateString (\<lambda>s. Some jan7) (Some ''Jan 7, 2025'') = Some ''2025-01-07''
   \<and> parseDateString (\<lambda>s. Some jan7) (Some ''January 7, 2025'') = Some ''2025-01-07''
   \<and> months (take 3 ''not'') = None
   \<and> parseDateString (\<lambda>s. None) (Some ''not a date'') = Some ''date-undefined-0a''"
  by (simp add: parseDateString_def str_eval Let_def jan7_def show_int_def show_nat.simps
      digit_char_def)

subsection \<open>Enriching a post whose page cannot be fetched\<close>

text \<open>
  C3. When the request for the post's page is rejected, \<open>enrichPostData\<close> returns the
  post with the default excerpt, the category of its title and the default read time.
  When the page answers with a status that is not a success, it returns the post as it
  is: a post as scraped comes back without excerpt, category and read time.
\<close>

theorem enrichPostData_not_ok_returns_post:
  "enrichPostData (Response False st doc) p = p
   \<and> excerpt (enrichPostData (Response False 404 doc) skeleton) = None
   \<and> category (enrichPostData (Response False 404 doc) skeleton) = None
   \<and> readTime (enrichPostData (Response False 404 doc) skeleton) = None
   \<and> enrichPostData NetworkError p = enrich_default p
   \<and> excerpt (enrichPostData NetworkError skeleton) = Some default_excerpt
   \<and> category (enrichPostData NetworkError skeleton) = Some ''deployment''
   \<and> readTime (enrichPostData NetworkError skeleton) = Some ''5 min read''"
  by (simp add: enrichPostData_def skeleton_def enrich_default_def determineCategory_def
      toLowerCase_def lower_char_def Let_def)

subsection \<open>The order of the scraped posts\<close>

text \<open>
  On posts whose dates the host reads, the sort does what is asked of it: the result has
  the same posts, later dates come first and posts without a date last, and posts of the
  same date, or without one, keep the order of the scrape.
\<close>

lemma sort_compare_readable:
  assumes "readable D a" and "readable D b"
  shows "sort_compare (compare_posts D) a b \<le> 0 \<longleftrightarrow> newer_first (post_time D a) (post_time D b)"
  using assms
  by (auto simp: readable_def sort_compare_def compare_posts_def post_time_def newer_first_def
      no_date_def split: option.splits if_splits)

lemma newer_first_total: "newer_first s t \<or> newer_first t s"
  by (auto simp: newer_first_def split: option.splits)

lemma newer_first_trans: "newer_first s t \<Longrightarrow> newer_first t u \<Longrightarrow> newer_first s u"
  by (auto simp: newer_first_def split: option.splits)

lemma newer_first_refl: "newer_first t t"
  by (auto simp: newer_first_def split: option.splits)

lemma length_insert_sorted: "length (insert_sorted cmp x ys) = Suc (length ys)"
  by (induction ys) auto

lemma set_insert_sorted: "set (insert_sorted cmp x ys) = insert x (set ys)"
  by (induction ys) auto

lemma sorted_insert_sorted:
  assumes "\<forall>p \<in> set (x # ys). readable D p"
    and "sorted_wrt (\<lambda>a b. newer_first (post_time D a) (post_time D b)) ys"
  shows "sorted_wrt (\<lambda>a b. newer_first (post_time D a) (post_time D b))
           (insert_sorted (compare_posts D) x ys)"
  using assms
proof (induction ys)
  case Nil
  then show ?case by simp
next
  case (Cons y ys)
  show ?case
  proof (cases "sort_compare (compare_posts D) x y \<le> 0")
    case True
    then have xy: "newer_first (post_time D x) (post_time D y)"
      using Cons.prems(1) by (simp add: sort_compare_readable)
    have "\<forall>z \<in> set ys. newer_first (post_time D x) (post_time D z)"
      using Cons.prems(2) xy newer_first_trans by auto
    with True xy Cons.prems(2) show ?thesis by simp
  next
    case False
    then have "\<not> newer_first (post_time D x) (post_time D y)"
      using Cons.prems(1) by (simp add: sort_compare_readable)
    then have yx: "newer_first (post_time D y) (post_time D x)"
      using newer_first_total by blast
    have "sorted_wrt (\<lambda>a b. newer_first (post_time D a) (post_time D b))
           (insert_sorted (compare_posts D) x ys)"
      using Cons.IH Cons.prems by simp
    with False yx Cons.prems(2) show ?thesis by (simp add: set_insert_sorted)
  qed
qed

lemma stable_insert_sorted:
  assumes "\<forall>p \<in> set (x # ys). readable D p"
  shows "filter (\<lambda>p. post_time D p = k) (insert_sorted (compare_posts D) x ys)
           = filter (\<lambda>p. post_time D p = k) (x # ys)"
  using assms
proof (induction ys)
  case Nil
  then show ?case by simp
next
  case (Cons y ys)
  show ?case
  proof (cases "sort_compare (compare_posts D) x y \<le> 0")
    case True
    then show ?thesis by simp
  next
    case False
    then have "\<not> newer_first (post_time D x) (post_time D y)"
      using Cons.prems by (simp add: sort_compare_readable)
    then have ne: "post_time D x \<noteq> post_time D y" using newer_first_refl by metis
    have IH: "filter (\<lambda>p. post_time D p = k) (insert_sorted (compare_posts D) x ys)
           = filter (\<lambda>p. post_time D p = k) (x # ys)"
      using Cons.IH Cons.prems by simp
    show ?thesis using False ne IH by auto
  qed
qed

lemma array_sort_readable_dates:
  assumes "\<forall>p \<in> set ps. readable D p"
  shows "length (array_sort (compare_posts D) ps) = length ps
       \<and> set (array_sort (compare_posts D) ps) = set ps
       \<and> sorted_wrt (\<lambda>a b. newer_first (post_time D a) (post_time D b))
           (array_sort (compare_posts D) ps)
       \<and> (\<forall>k. filter (\<lambda>p. post_time D p = k) (array_sort (compare_posts D) ps)
                = filter (\<lambda>p. post_time D p = k) ps)"
  using assms
proof (induction ps)
  case Nil
  then show ?case by (simp add: array_sort_def)
next
  case (Cons x ps)
  let ?s = "array_sort (compare_posts D) ps"
  have s: "array_sort (compare_posts D) (x # ps) = insert_sorted (compare_posts D) x ?s"
    by (simp add: array_sort_def)
  from Cons have IH: "length ?s = length ps" "set ?s = set ps"
    "sorted_wrt (\<lambda>a b. newer_first (post_time D a) (post_time D b)) ?s"
    "\<And>k. filter (\<lambda>p. post_time D p = k) ?s = filter (\<lambda>p. post_time D p = k) ps"
    by simp_all
  have r: "\<forall>p \<in> set (x # ?s). readable D p" using Cons.prems IH(2) by simp
  show ?case
    unfolding s
    using sorted_insert_sorted [OF r IH(3)] stable_insert_sorted [OF r] IH(1,2,4)
    by (simp add: length_insert_sorted set_insert_sorted)
qed

lemmas scrape_eval = scrape_item_def has_ymd_def ymd_here_def find_date_span_def
  looks_like_date_def date_here_def has_year_def year_here_def parseDateString_def
  formatDate_def

lemma scrape_item_undated:
  "scrape_item host_parser long item_undated =
     Some \<lparr>title = ''Release notes'', url = ''https://blog.mlc.ai/2025/02/01/release-notes'',
           date = Some ''31/12/2025-undefined-on'', formattedDate = ''31/12/2025-undefined-on'',
           rawDate = Some ''Posted on 31/12/2025'', excerpt = None, category = None,
           readTime = None\<rparr>"
  by (simp add: scrape_eval item_undated_def host_parser_def str_eval Let_def)

lemma scrape_item_dated:
  "scrape_item host_parser long item_dated =
     Some \<lparr>title = ''My Post'', url = ''https://blog.mlc.ai/2025/01/07/my-post'',
           date = Some ''2025-01-07'', formattedDate = long jan7,
           rawDate = Some ''Jan 7, 2025'', excerpt = None, category = None, readTime = None\<rparr>"
  by (simp add: scrape_eval item_dated_def host_parser_def str_eval Let_def jan7_def
      show_int_def show_nat.simps digit_char_def)

text \<open>
  C4. An index page with two items, the first dated \<open>Posted on 31/12/2025\<close>, which the
  host parser rejects, the second \<open>Jan 7, 2025\<close>. The first post gets the date
  \<open>31/12/2025-undefined-on\<close>, which is no date either; the comparator answers \<open>NaN\<close>,
  and the post without a readable date stays before the dated one.
\<close>

theorem fetchPostsFromBlog_unreadable_date_first:
  "(\<exists>ps. fetchPostsFromBlog host_parser long (Response True 200 [item_undated, item_dated])
            = Inr ps
         \<and> map title ps = [''Release notes'', ''My Post'']
         \<and> map date ps = [Some ''31/12/2025-undefined-on'', Some ''2025-01-07''])
   \<and> host_parser ''Posted on 31/12/2025'' = None
   \<and> host_parser ''31/12/2025-undefined-on'' = None
   \<and> host_parser ''2025-01-07'' = Some jan7"
  by (simp add: fetchPostsFromBlog_def List.map_filter_simps scrape_item_undated
      scrape_item_dated array_sort_def sort_compare_def compare_posts_def no_date_def
      host_parser_def)

subsection \<open>Partial includes\<close>

text \<open>
  C5, as the code has it. When the request for a fragment is rejected, the document is
  left as it was. When a response arrives, whatever its status, the container's content
  is replaced with the body of the response. Either way the loader's promise is
  fulfilled, so no error surfaces, and a loader never touches the other container.
\<close>

theorem load_partials:
  "loadFooter NetworkError d = (d, Fulfilled)
   \<and> loadHeader relink initNav pathname NetworkError d = (d, Fulfilled)
   \<and> snd (loadFooter resp d) = Fulfilled
   \<and> snd (loadHeader relink initNav pathname resp d) = Fulfilled
   \<and> (site_footer d \<noteq> None \<longrightarrow>
        site_footer (fst (loadFooter (Response ok st html) d)) = Some html)
   \<and> (site_header d \<noteq> None \<longrightarrow>
        site_header (fst (loadHeader relink initNav pathname (Response ok st html) d)) = Some html)
   \<and> site_header (fst (loadFooter resp d)) = site_header d
   \<and> site_footer (fst (loadHeader relink initNav pathname resp d)) = site_footer d"
  by (auto simp: loadFooter_def loadHeader_def Let_def split: option.splits fetched.splits)

theorem load_partials_witness:
  "site_footer old_dom \<noteq> None
   \<and> site_footer (fst (loadFooter (Response True 200 ''<p>footer</p>'') old_dom))
        = Some ''<p>footer</p>''
   \<and> site_header old_dom \<noteq> None
   \<and> site_header (fst (loadHeader (\<lambda>h n. n) None ''/index.html''
          (Response True 200 ''<nav></nav>'') old_dom)) = Some ''<nav></nav>''"
proof -
  have a: "site_footer old_dom \<noteq> None" "site_header old_dom \<noteq> None"
    by (simp_all add: old_dom_def)
  from a
    load_partials [of old_dom "\<lambda>h n. n" None "''/index.html''" NetworkError True 200
      "''<p>footer</p>''"]
    load_partials [of old_dom "\<lambda>h n. n" None "''/index.html''" NetworkError True 200
      "''<nav></nav>''"]
  show ?thesis by blast
qed

text \<open>
  The claim as stated leaves the container untouched on a status that is not a success.
  A 404 answer puts its body into the footer, and into the header.
\<close>

theorem loadFooter_not_found_counterexample:
  "site_footer old_dom = Some ''<p>placeholder</p>''
   \<and> site_footer (fst (loadFooter (Response False 404 ''<h1>Not Found</h1>'') old_dom))
        = Some ''<h1>Not Found</h1>''
   \<and> site_footer (fst (loadFooter (Response False 404 ''<h1>Not Found</h1>'') old_dom))
        \<noteq> site_footer old_dom
   \<and> site_header (fst (loadHeader (\<lambda>h n. n) None ''/index.html''
          (Response False 404 ''<h1>Not Found</h1>'') old_dom))
        = Some ''<h1>Not Found</h1>''"
  by (simp add: old_dom_def loadFooter_def loadHeader_def Let_def)

subsection \<open>Batches\<close>

lemma chunks_Nil [simp]: "chunks k [] = []"
  by (subst chunks.simps) simp

lemma chunks_step: "0 < k \<Longrightarrow> xs \<noteq> [] \<Longrightarrow> chunks k xs = take k xs # chunks k (drop k xs)"
  by (subst chunks.simps) simp

lemma chunks_eq_Nil: "0 < k \<Longrightarrow> chunks k xs = [] \<longleftrightarrow> xs = []"
  by (subst chunks.simps) simp

lemma schedule_Cons:
  "schedule (b # bs) =
     map (\<lambda>p. Fetch (url p)) b @ [Await] @ (if bs = [] then [] else Delay 100 # schedule bs)"
  by (cases bs) simp_all

lemma enrich_batches_schedule:
  "enrich_batches pages ps i acc tr =
     (acc @ map (\<lambda>p. enrichPostData (pages (url p)) p) (drop i ps),
      tr @ schedule (chunks batchSize (drop i ps)))"
proof (induction pages ps i acc tr rule: enrich_batches.induct)
  case (1 pages ps i acc tr)
  show ?case
  proof (cases "i < length ps")
    case False
    then show ?thesis by (subst enrich_batches.simps) simp
  next
    case True
    let ?batch = "take batchSize (drop i ps)"
    let ?tr1 = "tr @ map (\<lambda>p. Fetch (url p)) ?batch @ [Await]"
    let ?tr2 = "if i + batchSize < length ps then ?tr1 @ [Delay 100] else ?tr1"
    have ne: "drop i ps \<noteq> []" using True by simp
    have k: "0 < batchSize" by (simp add: batchSize_def)
    have dd: "drop batchSize (drop i ps) = drop (i + batchSize) ps" by (simp add: add.commute)
    have IH: "enrich_batches pages ps (i + batchSize)
                 (acc @ map (\<lambda>p. enrichPostData (pages (url p)) p) ?batch) ?tr2 =
              ((acc @ map (\<lambda>p. enrichPostData (pages (url p)) p) ?batch)
                 @ map (\<lambda>p. enrichPostData (pages (url p)) p) (drop (i + batchSize) ps),
               ?tr2 @ schedule (chunks batchSize (drop (i + batchSize) ps)))"
      using "1.IH" [OF True refl refl refl refl] .
    have m: "map (\<lambda>p. enrichPostData (pages (url p)) p) ?batch
              @ map (\<lambda>p. enrichPostData (pages (url p)) p) (drop (i + batchSize) ps)
            = map (\<lambda>p. enrichPostData (pages (url p)) p) (drop i ps)"
    proof -
      have "?batch @ drop (i + batchSize) ps = drop i ps"
        unfolding dd [symmetric] by (rule append_take_drop_id)
      then have "map (\<lambda>p. enrichPostData (pages (url p)) p) (?batch @ drop (i + batchSize) ps)
           = map (\<lambda>p. enrichPostData (pages (url p)) p) (drop i ps)" by (rule arg_cong)
      then show ?thesis by (simp only: map_append)
    qed
    have e: "chunks batchSize (drop (i + batchSize) ps) = [] \<longleftrightarrow> \<not> i + batchSize < length ps"
      by (simp add: chunks_eq_Nil [OF k] not_less)
    have s: "?tr2 @ schedule (chunks batchSize (drop (i + batchSize) ps))
            = tr @ schedule (chunks batchSize (drop i ps))"
      unfolding chunks_step [OF k ne] schedule_Cons dd using e by simp
    have "enrich_batches pages ps i acc tr =
            enrich_batches pages ps (i + batchSize)
              (acc @ map (\<lambda>p. enrichPostData (pages (url p)) p) ?batch) ?tr2"
      by (subst enrich_batches.simps) (simp only: True if_True Let_def)
    also note IH
    also have "((acc @ map (\<lambda>p. enrichPostData (pages (url p)) p) ?batch)
                 @ map (\<lambda>p. enrichPostData (pages (url p)) p) (drop (i + batchSize) ps),
               ?tr2 @ schedule (chunks batchSize (drop (i + batchSize) ps)))
            = (acc @ map (\<lambda>p. enrichPostData (pages (url p)) p) (drop i ps),
               tr @ schedule (chunks batchSize (drop i ps)))"
      by (subst s, subst append_assoc, subst m, rule refl)
    finally show ?thesis .
  qed
qed

lemma concat_chunks: "0 < k \<Longrightarrow> concat (chunks k xs) = xs"
proof (induction k xs rule: chunks.induct)
  case (1 k xs)
  show ?case
  proof (cases "xs = []")
    case True
    then show ?thesis by simp
  next
    case False
    with 1 show ?thesis by (simp add: chunks_step)
  qed
qed

lemma length_chunks:
  "0 < k \<Longrightarrow> map length (chunks k xs) =
     replicate (length xs div k) k @ (if length xs mod k = 0 then [] else [length xs mod k])"
proof (induction k xs rule: chunks.induct)
  case (1 k xs)
  show ?case
  proof (cases "xs = []")
    case True
    then show ?thesis by simp
  next
    case False
    note IH = "1.IH" [OF _ "1.prems"]
    show ?thesis
    proof (cases "k \<le> length xs")
      case True
      then have d: "length xs div k = Suc ((length xs - k) div k)"
        using "1.prems" by (simp add: le_div_geq)
      have m: "length xs mod k = (length xs - k) mod k"
        using True by (simp add: le_mod_geq)
      from False "1.prems" True IH show ?thesis
        by (simp add: chunks_step d m min_def)
    next
      case False': False
      then have "length xs < k" by simp
      with False "1.prems" show ?thesis by (simp add: chunks_step)
    qed
  qed
qed

lemma schedule_ne: "schedule (b # bs) \<noteq> []"
  by (simp add: schedule_Cons)

lemma schedule_last: "bs \<noteq> [] \<Longrightarrow> last (schedule bs) = Await"
  by (induction bs rule: schedule.induct) (simp_all add: schedule_ne)

lemma schedule_delays: "length (filter (\<lambda>e. e = Delay 100) (schedule bs)) = length bs - 1"
proof (induction bs rule: schedule.induct)
  case 1
  then show ?case by simp
next
  case (2 b)
  have "filter (\<lambda>e. e = Delay 100) (map (\<lambda>p. Fetch (url p)) b) = []"
    by (induction b) simp_all
  then show ?case by simp
next
  case (3 b c bs)
  have "filter (\<lambda>e. e = Delay 100) (map (\<lambda>p. Fetch (url p)) b) = []"
    by (induction b) simp_all
  with 3 show ?case by simp
qed

text \<open>
  C6. The loop enriches the posts in the order given and does to the outside what the
  schedule of the batches says: the posts are cut into consecutive batches of 5, the
  last one holding the remainder when there is one; the requests of a batch are all
  issued before the batch is awaited; a pause of 100 ms stands between two batches, so
  there is one pause less than there are batches and the last event is an await. Twelve
  posts go in batches of 5, 5 and 2. \<open>fetchAllPosts\<close> returns and stores the enriched posts
  in the order of the sorted scrape.
\<close>

theorem fetchAllPosts_batches:
  "enrich_batches pages ps 0 [] [] =
     (map (\<lambda>p. enrichPostData (pages (url p)) p) ps, schedule (chunks batchSize ps))
   \<and> batchSize = 5
   \<and> concat (chunks batchSize ps) = ps
   \<and> map length (chunks batchSize ps) =
       replicate (length ps div 5) 5 @ (if length ps mod 5 = 0 then [] else [length ps mod 5])
   \<and> length (filter (\<lambda>e. e = Delay 100) (schedule (chunks batchSize ps)))
       = length (chunks batchSize ps) - 1
   \<and> (ps \<noteq> [] \<longrightarrow> last (schedule (chunks batchSize ps)) = Await)
   \<and> (length ps = 12 \<longrightarrow> map length (chunks batchSize ps) = [5, 5, 2])
   \<and> (fetchPostsFromBlog D long index = Inr ps \<and> ps \<noteq> [] \<longrightarrow>
        fst (fetchAllPosts D long index pages bl) = map (\<lambda>p. enrichPostData (pages (url p)) p) ps
        \<and> posts (fst (snd (fetchAllPosts D long index pages bl)))
             = map (\<lambda>p. enrichPostData (pages (url p)) p) ps
        \<and> snd (snd (fetchAllPosts D long index pages bl))
             = [Fetch ''https://blog.mlc.ai/'', Await] @ schedule (chunks batchSize ps))"
proof -
  have k: "0 < batchSize" and k5: "batchSize = 5" by (simp_all add: batchSize_def)
  have 1: "enrich_batches pages ps 0 [] [] =
     (map (\<lambda>p. enrichPostData (pages (url p)) p) ps, schedule (chunks batchSize ps))"
    using enrich_batches_schedule [of pages ps 0 "[]" "[]"] by simp
  have 2: "concat (chunks batchSize ps) = ps" using k by (rule concat_chunks)
  have 3: "map length (chunks batchSize ps) =
       replicate (length ps div 5) 5 @ (if length ps mod 5 = 0 then [] else [length ps mod 5])"
    using length_chunks [OF k, of ps] by (simp only: k5)
  have 4: "length ps = 12 \<longrightarrow> map length (chunks batchSize ps) = [5, 5, 2]"
  proof
    assume "length ps = 12"
    then show "map length (chunks batchSize ps) = [5, 5, 2]"
      unfolding 3 by (simp add: numeral_2_eq_2)
  qed
  have 5: "ps \<noteq> [] \<longrightarrow> last (schedule (chunks batchSize ps)) = Await"
    using chunks_eq_Nil [OF k, of ps] schedule_last by blast
  have 6: "fetchPostsFromBlog D long index = Inr ps \<and> ps \<noteq> [] \<longrightarrow>
        fst (fetchAllPosts D long index pages bl) = map (\<lambda>p. enrichPostData (pages (url p)) p) ps
        \<and> posts (fst (snd (fetchAllPosts D long index pages bl)))
             = map (\<lambda>p. enrichPostData (pages (url p)) p) ps
        \<and> snd (snd (fetchAllPosts D long index pages bl))
             = [Fetch ''https://blog.mlc.ai/'', Await] @ schedule (chunks batchSize ps)"
    by (simp add: fetchAllPosts_def 1)
  from 1 k5 2 3 schedule_delays 4 5 6 show ?thesis by blast
qed

theorem fetchAllPosts_batches_witness:
  "length twelve_posts = 12
   \<and> map length (chunks batchSize twelve_posts) = [5, 5, 2]
   \<and> length (filter (\<lambda>e. e = Delay 100) (schedule (chunks batchSize twelve_posts))) = 2
   \<and> last (schedule (chunks batchSize twelve_posts)) = Await"
proof -
  have l: "length twelve_posts = 12" by (simp add: twelve_posts_def)
  then have ne: "twelve_posts \<noteq> []" by auto
  from fetchAllPosts_batches [of "\<lambda>u. NetworkError" twelve_posts] l ne
  have "map length (chunks batchSize twelve_posts) = [5, 5, 2]"
    and "length (filter (\<lambda>e. e = Delay 100) (schedule (chunks batchSize twelve_posts)))
       = length (chunks batchSize twelve_posts) - 1"
    and "last (schedule (chunks batchSize twelve_posts)) = Await"
    by blast+
  moreover from this(1) have "length (chunks batchSize twelve_posts) = 3"
    by (metis length_map length_Cons list.size(3) numeral_3_eq_3)
  ultimately show ?thesis using l by simp
qed

subsection \<open>The grid of the blog page\<close>

lemma render_cards_urls:
  "render_cards monthYear ps = Inr cs \<Longrightarrow> map card_url cs = map url ps"
proof (induction ps arbitrary: cs)
  case Nil
  then show ?case by simp
next
  case (Cons p ps)
  then show ?case
    by (auto simp: renderPostCard_def Let_def split: sum.splits option.splits)
qed

lemma render_cards_ok:
  "\<forall>p \<in> set ps. category p \<noteq> None \<Longrightarrow> \<exists>cs. render_cards monthYear ps = Inr cs"
proof (induction ps)
  case Nil
  then show ?case by simp
next
  case (Cons p ps)
  then obtain cs where "render_cards monthYear ps = Inr cs" by auto
  moreover from Cons.prems obtain c where "category p = Some c" by auto
  ultimately show ?case by (simp add: renderPostCard_def Let_def)
qed

lemma renderPosts_grid:
  assumes "postsGrid pg \<noteq> None" and "renderPosts monthYear bl pg = Inr pg'"
  shows "grid_urls pg' = map url (drop 1 (filteredPosts bl)) \<and> featuredSection pg' = featuredSection pg"
proof -
  from assms(1) obtain g where g: "postsGrid pg = Some g" by auto
  show ?thesis
  proof (cases "drop 1 (filteredPosts bl) = []")
    case True
    with assms(2) g show ?thesis by (auto simp: renderPosts_def grid_urls_def Let_def)
  next
    case False
    with assms(2) g obtain cs where cs: "render_cards monthYear (drop 1 (filteredPosts bl)) = Inr cs"
      "pg' = pg\<lparr>postsGrid := Some (Cards cs)\<rparr>"
      by (auto simp: renderPosts_def Let_def split: sum.splits)
    from render_cards_urls [OF cs(1)] cs(2) show ?thesis by (simp add: grid_urls_def)
  qed
qed

lemma renderPosts_ok:
  assumes "\<forall>p \<in> set (posts bl). category p \<noteq> None"
  shows "\<exists>pg'. renderPosts monthYear bl pg = Inr pg'"
proof -
  have "set (drop 1 (filteredPosts bl)) \<subseteq> set (posts bl)"
    by (auto simp: filteredPosts_def dest: in_set_dropD)
  with assms have "\<forall>p \<in> set (drop 1 (filteredPosts bl)). category p \<noteq> None" by blast
  from render_cards_ok [OF this] obtain cs where
    "render_cards monthYear (drop 1 (filteredPosts bl)) = Inr cs" by blast
  then show ?thesis by (auto simp: renderPosts_def Let_def split: option.splits)
qed

text \<open>
  C10. \<open>renderPosts\<close> renders the selected posts without the first of them, whatever the
  selection. So on a page with a featured block and a grid, with posts that all have a
  category and pairwise different addresses: after the first rendering, a click on a
  category other than \<open>all\<close> whose most recent post \<open>f\<close> is not the most recent post of
  all leaves the featured block on the most recent post of all and fills the grid with
  the category's posts after \<open>f\<close>, and the address of \<open>f\<close> is nowhere on the page.
\<close>

theorem renderPosts_drops_first:
  assumes grid: "postsGrid pg \<noteq> None" and feat: "featuredSection pg \<noteq> None"
    and cats: "\<forall>p \<in> set (posts bl). category p \<noteq> None"
    and dist: "distinct (map url (posts bl))"
    and c: "c \<noteq> ''all''"
    and f: "filter (\<lambda>p. category p = Some c) (posts bl) = f # rest"
    and nf: "f \<noteq> hd (posts bl)"
  shows "\<exists>pg1 pg2. renderPosts monthYear bl pg = Inr pg1
          \<and> grid_urls pg1 = map url (drop 1 (filteredPosts bl))
          \<and> snd (click_category monthYear (Some c) bl (init_render monthYear bl pg)) = Inr pg2
          \<and> featuredSection pg2 = Some (FeaturedPost (hd (posts bl)))
          \<and> grid_urls pg2 = map url rest
          \<and> url f \<notin> page_urls pg2"
proof -
  have "f \<in> set (filter (\<lambda>p. category p = Some c) (posts bl))" unfolding f by simp
  then have fin: "f \<in> set (posts bl)" by simp
  then have ne: "posts bl \<noteq> []" by auto
  from renderPosts_ok [OF cats] obtain pg1 where pg1: "renderPosts monthYear bl pg = Inr pg1"
    by blast
  define pgf where "pgf = renderFeaturedArticle (Some (hd (posts bl))) pg"
  have pgf: "featuredSection pgf = Some (FeaturedPost (hd (posts bl)))" "postsGrid pgf = postsGrid pg"
    using feat by (auto simp: pgf_def renderFeaturedArticle_def)
  from renderPosts_ok [OF cats] obtain pgi where pgi: "renderPosts monthYear bl pgf = Inr pgi"
    by blast
  have init: "init_render monthYear bl pg = pgi"
    using ne pgi by (simp add: init_render_def Let_def pgf_def)
  have pgi_grid: "postsGrid pgi \<noteq> None"
    using pgi grid pgf(2) by (auto simp: renderPosts_def Let_def split: option.splits sum.splits if_splits)
  have pgi_feat: "featuredSection pgi = Some (FeaturedPost (hd (posts bl)))"
    using renderPosts_grid [OF _ pgi] grid pgf by simp
  define bl1 where "bl1 = bl\<lparr>currentCategory := Some c\<rparr>"
  have cats1: "\<forall>p \<in> set (posts bl1). category p \<noteq> None" using cats by (simp add: bl1_def)
  from renderPosts_ok [OF cats1] obtain pg2 where pg2: "renderPosts monthYear bl1 pgi = Inr pg2"
    by blast
  have fp: "filteredPosts bl1 = f # rest" using c f by (simp add: filteredPosts_def bl1_def)
  note r = renderPosts_grid [OF pgi_grid pg2]
  have g2: "grid_urls pg2 = map url rest" using r fp by simp
  have f2: "featuredSection pg2 = Some (FeaturedPost (hd (posts bl)))" using r pgi_feat by simp
  have click: "snd (click_category monthYear (Some c) bl (init_render monthYear bl pg)) = Inr pg2"
    using pg2 by (simp add: click_category_def Let_def init bl1_def)
  have "distinct (map url (filter (\<lambda>p. category p = Some c) (posts bl)))"
    using dist by (rule distinct_map_filter)
  then have nr: "url f \<notin> set (map url rest)" unfolding f by simp
  have "hd (posts bl) \<in> set (posts bl)" using ne by simp
  with fin nf dist have nh: "url f \<noteq> url (hd (posts bl))"
    by (metis distinct_map inj_onD)
  have "url f \<notin> page_urls pg2" using g2 f2 nr nh by (simp add: page_urls_def)
  with pg1 renderPosts_grid [OF grid pg1] click f2 g2 show ?thesis by blast
qed

theorem renderPosts_drops_first_witness:
  "filter (\<lambda>p. category p = Some ''tutorials'') (posts example_loader)
      = [tutorial_post, older_tutorial_post]
   \<and> tutorial_post \<noteq> hd (posts example_loader)
   \<and> (\<exists>pg1 pg2. renderPosts (\<lambda>d. d) example_loader example_page = Inr pg1
          \<and> grid_urls pg1 = map url (drop 1 (filteredPosts example_loader))
          \<and> snd (click_category (\<lambda>d. d) (Some ''tutorials'') example_loader
                 (init_render (\<lambda>d. d) example_loader example_page)) = Inr pg2
          \<and> featuredSection pg2 = Some (FeaturedPost (hd (posts example_loader)))
          \<and> grid_urls pg2 = map url [older_tutorial_post]
          \<and> url tutorial_post \<notin> page_urls pg2)"
proof -
  have g: "postsGrid example_page \<noteq> None" and h: "featuredSection example_page \<noteq> None"
    by (simp_all add: example_page_def)
  have cats: "\<forall>p \<in> set (posts example_loader). category p \<noteq> None"
    by (simp add: example_loader_def research_post_def tutorial_post_def older_tutorial_post_def)
  have dist: "distinct (map url (posts example_loader))"
    by (simp add: example_loader_def research_post_def tutorial_post_def older_tutorial_post_def
        skeleton_def)
  have c: "''tutorials'' \<noteq> ''all''" by simp
  have f: "filter (\<lambda>p. category p = Some ''tutorials'') (posts example_loader)
      = tutorial_post # [older_tutorial_post]"
    by (simp add: example_loader_def research_post_def tutorial_post_def older_tutorial_post_def)
  have nf: "tutorial_post \<noteq> hd (posts example_loader)"
    by (simp add: example_loader_def research_post_def tutorial_post_def skeleton_def)
  from renderPosts_drops_first [OF g h cats dist c f nf, of "\<lambda>d. d"] f nf
  show ?thesis by simp
qed

end
